theory Spec2Isabelle
  imports Complex_Main
begin

section \<open>Values and errors\<close>

text \<open>
  The exceptions the modelled part of \<^verbatim>\<open>ensenble_train.py\<close> can raise: the
  \<^verbatim>\<open>assert\<close> of \<^verbatim>\<open>grid_image\<close>, a division of Python numbers by zero, and the
  \<^verbatim>\<open>ValueError\<close> of the libraries (a data loader with a non-positive batch size, an
  F1 score of label lists of different lengths).
\<close>

datatype error = AssertionError | ZeroDivisionError | ValueError

text \<open>
  A Python float as far as the training loop looks at it: a finite value (taken as a
  real number, rounding is not modelled), the two infinities and NaN. The loop only
  compares such values, with IEEE comparisons: every comparison with NaN is false.
\<close>

datatype pyfloat = Fin real | PInf | NInf | NaN

fun flt :: "pyfloat \<Rightarrow> pyfloat \<Rightarrow> bool" where
  "flt NaN _ = False"
| "flt _ NaN = False"
| "flt (Fin a) (Fin b) = (a < b)"
| "flt (Fin _) PInf = True"
| "flt (Fin _) NInf = False"
| "flt PInf _ = False"
| "flt NInf NInf = False"
| "flt NInf _ = True"

definition fgt :: "pyfloat \<Rightarrow> pyfloat \<Rightarrow> bool" where
  "fgt a b = flt b a"

definition fle :: "pyfloat \<Rightarrow> pyfloat \<Rightarrow> bool" where
  "fle a b = (a \<noteq> NaN \<and> b \<noteq> NaN \<and> \<not> flt b a)"

text \<open>
  Python's builtin \<^verbatim>\<open>max(a, b)\<close> keeps \<^verbatim>\<open>a\<close> unless \<^verbatim>\<open>b > a\<close>, and
  \<^verbatim>\<open>min(a, b)\<close> keeps \<^verbatim>\<open>a\<close> unless \<^verbatim>\<open>b < a\<close>.
\<close>

definition py_max :: "pyfloat \<Rightarrow> pyfloat \<Rightarrow> pyfloat" where
  "py_max a b = (if fgt b a then b else a)"

definition py_min :: "pyfloat \<Rightarrow> pyfloat \<Rightarrow> pyfloat" where
  "py_min a b = (if flt b a then b else a)"

text \<open>
  The division of numpy floats, used by the validation loop: a zero divisor gives NaN
  for a zero dividend and an infinity otherwise (with a warning, not an exception).
\<close>

definition np_div :: "real \<Rightarrow> real \<Rightarrow> pyfloat" where
  "np_div x y =
     (if y = 0 then (if x = 0 then NaN else if 0 < x then PInf else NInf)
      else Fin (x / y))"

section \<open>Macro-averaged F1\<close>

text \<open>
  \<^verbatim>\<open>sklearn.metrics.f1_score(a, b, average='macro')\<close>, whose first parameter is the
  list of true labels and whose second is the list of predicted labels: the labels are
  the values that occur in either list; the F1 of a label is computed from its
  precision and recall (a ratio with a zero denominator counts as 0), and the result is
  the unweighted mean over the labels. Lists of different lengths are refused, and the
  mean over no label at all is NaN. Arithmetic is exact.
\<close>

definition unique_labels :: "nat list \<Rightarrow> nat list \<Rightarrow> nat list" where
  "unique_labels y_true y_pred = sort (remdups (y_true @ y_pred))"

definition prf_divide :: "nat \<Rightarrow> nat \<Rightarrow> real" where
  "prf_divide numerator denominator =
     (if denominator = 0 then 0 else real numerator / real denominator)"

definition tp_sum :: "nat list \<Rightarrow> nat list \<Rightarrow> nat \<Rightarrow> nat" where
  "tp_sum y_true y_pred c = length (filter (\<lambda>(t, p). t = c \<and> p = c) (zip y_true y_pred))"

definition class_f1 :: "nat list \<Rightarrow> nat list \<Rightarrow> nat \<Rightarrow> real" where
  "class_f1 y_true y_pred c =
     (let precision = prf_divide (tp_sum y_true y_pred c) (count_list y_pred c);
          recall = prf_divide (tp_sum y_true y_pred c) (count_list y_true c);
          denom = (if precision + recall = 0 then 1 else precision + recall)
      in 2 * precision * recall / denom)"

definition f1_score :: "nat list \<Rightarrow> nat list \<Rightarrow> error + pyfloat" where
  "f1_score y_true y_pred =
     (if length y_true \<noteq> length y_pred then Inl ValueError
      else let labels = unique_labels y_true y_pred in
        if labels = [] then Inr NaN
        else Inr (Fin (sum_list (map (class_f1 y_true y_pred) labels) / real (length labels))))"

section \<open>Batches\<close>

text \<open>
  A sample as the loops see it: its label and the class the model predicts for it (the
  arg-max of the model's output at the moment the sample's batch is processed).
\<close>

type_synonym sample = "nat \<times> nat"

text \<open>
  The batches a \<^verbatim>\<open>DataLoader(..., batch_size=bs, drop_last=True)\<close> yields in one pass
  over the samples, given in the order the loader draws them: full batches of
  \<open>bs\<close> samples, a trailing partial batch dropped.
\<close>

function drop_last_batches :: "nat \<Rightarrow> 'a list \<Rightarrow> 'a list list" where
  "drop_last_batches bs xs =
     (if bs = 0 \<or> length xs < bs then []
      else take bs xs # drop_last_batches bs (drop bs xs))"
  by pat_completeness auto
termination
  by (relation "measure (\<lambda>(bs, xs). length xs)") auto

declare drop_last_batches.simps [simp del]

text \<open>\<^verbatim>\<open>(preds == labels).sum().item()\<close>: the correct predictions of a batch.\<close>

definition batch_matches :: "sample list \<Rightarrow> nat" where
  "batch_matches b = length (filter (\<lambda>(label, pred). pred = label) b)"

section \<open>The command line\<close>

text \<open>
  The arguments of the run that the training loop reads. \<^verbatim>\<open>argparse\<close> accepts any
  integer for the numeric ones.
\<close>

record args =
  epochs :: int
  batch_size :: int
  valid_batch_size :: int
  log_interval :: int
  dataset :: string

section \<open>The logging sink\<close>

text \<open>
  A figure of \<^verbatim>\<open>grid_image\<close>: the (ground truth, prediction) pair of every tile, in
  the order of the tiles.
\<close>

type_synonym figure = "sample list"

text \<open>The calls of the \<^verbatim>\<open>SummaryWriter\<close>: tag, value, step.\<close>

datatype log_entry =
  AddScalar string pyfloat nat
| AddFigure string "figure option" nat

section \<open>The training pass of one slot\<close>

record label_lists =
  y_true :: "nat list"
  y_pred :: "nat list"

record train_state = label_lists +
  loss_value :: real
  matches :: nat
  temp_loss_value :: real
  temp_matches :: nat
  train_log :: "log_entry list"

definition train_init :: train_state where
  "train_init = \<lparr>y_true = [], y_pred = [], loss_value = 0, matches = 0,
     temp_loss_value = 0, temp_matches = 0, train_log = []\<rparr>"

text \<open>
  The body of the loop over \<^verbatim>\<open>enumerate(train_loaders[i])\<close>, lines 241 to 269.
  \<open>n_batches\<close> is \<^verbatim>\<open>len(train_loaders[i])\<close>; \<open>losses idx\<close> is the value of
  \<^verbatim>\<open>criterion(outs, labels)\<close> on batch \<open>idx\<close>, a finite number. The update of the
  parameters is not modelled: its effect on the predictions is in the samples.
\<close>

definition train_batch ::
  "args \<Rightarrow> nat \<Rightarrow> nat \<Rightarrow> (nat \<Rightarrow> real) \<Rightarrow> nat \<times> sample list \<Rightarrow> train_state
     \<Rightarrow> error + train_state" where
  "train_batch a epoch n_batches losses ib st =
     (case ib of (idx, batch) \<Rightarrow>
        let loss = losses idx;
            st1 = st\<lparr>y_true := y_true st @ map fst batch,
                     y_pred := y_pred st @ map snd batch,
                     loss_value := loss_value st + loss,
                     temp_loss_value := temp_loss_value st + loss,
                     matches := matches st + batch_matches batch,
                     temp_matches := temp_matches st + batch_matches batch\<rparr>
        in if log_interval a = 0 then Inl ZeroDivisionError
           else if (int idx + 1) mod log_interval a = 0 then
             let temp_train_loss = temp_loss_value st1 / real_of_int (log_interval a);
                 temp_train_acc = real (temp_matches st1) / real_of_int (batch_size a)
                                    / real_of_int (log_interval a)
             in Inr (st1\<lparr>train_log := train_log st1 @
                          [AddScalar ''Train/loss'' (Fin temp_train_loss)
                             (epoch * n_batches + idx),
                           AddScalar ''Train/accuracy'' (Fin temp_train_acc)
                             (epoch * n_batches + idx)],
                        temp_loss_value := 0,
                        temp_matches := 0\<rparr>)
           else Inr st1)"

fun train_loop ::
  "args \<Rightarrow> nat \<Rightarrow> nat \<Rightarrow> (nat \<Rightarrow> real) \<Rightarrow> (nat \<times> sample list) list \<Rightarrow> train_state
     \<Rightarrow> error + train_state" where
  "train_loop a epoch n_batches losses [] st = Inr st"
| "train_loop a epoch n_batches losses (ib # rest) st =
     (case train_batch a epoch n_batches losses ib st of
        Inl err \<Rightarrow> Inl err
      | Inr st' \<Rightarrow> train_loop a epoch n_batches losses rest st')"

record train_result =
  train_loss :: real
  train_acc :: real
  train_f1 :: pyfloat
  train_scalars :: "log_entry list"

text \<open>
  Lines 234 to 273 for one slot and one epoch: the pass over the loader, then the
  epoch's loss, accuracy and F1. With no batch at all \<^verbatim>\<open>loss_value\<close> is still the
  integer 0 and line 271 divides it by zero. The F1 call passes the predictions first.
\<close>

definition train_epoch ::
  "args \<Rightarrow> nat \<Rightarrow> sample list \<Rightarrow> (nat \<Rightarrow> real) \<Rightarrow> error + train_result" where
  "train_epoch a epoch samples losses =
     (let loader = drop_last_batches (nat (batch_size a)) samples in
      case train_loop a epoch (length loader) losses (enumerate 0 loader) train_init of
        Inl err \<Rightarrow> Inl err
      | Inr st \<Rightarrow>
          if length loader = 0 then Inl ZeroDivisionError
          else
            (case f1_score (y_pred st) (y_true st) of
               Inl err \<Rightarrow> Inl err
             | Inr f1 \<Rightarrow>
                 Inr \<lparr>train_loss = loss_value st / real (length loader),
                      train_acc = real (matches st)
                        / real_of_int (batch_size a * int (length loader)),
                      train_f1 = f1,
                      train_scalars = train_log st\<rparr>))"

section \<open>The validation pass of one slot\<close>

text \<open>
  \<^verbatim>\<open>grid_image(np_images, gts, preds, n, shuffle)\<close>: the assertion on the size of the
  batch, then one tile per chosen sample. With \<^verbatim>\<open>shuffle\<close> the choices are
  \<^verbatim>\<open>random.choices(range(batch_size), k=n)\<close>, here the draws of a given random
  source reduced to that range; without it they are the first \<open>n\<close> samples. The
  decoding of a label into its three tasks (in \<^verbatim>\<open>dataset.py\<close>) and the drawing are
  left out.
\<close>

definition grid_image :: "sample list \<Rightarrow> nat \<Rightarrow> (nat \<Rightarrow> nat) option \<Rightarrow> error + figure" where
  "grid_image batch n shuffle =
     (let batch_size = length batch in
      if \<not> n \<le> batch_size then Inl AssertionError
      else
        let choices = (case shuffle of
                         Some draw \<Rightarrow> map (\<lambda>k. draw k mod batch_size) [0..<n]
                       | None \<Rightarrow> [0..<n])
        in Inr (map (\<lambda>choice. batch ! choice) choices))"

record val_state = label_lists +
  val_loss_items :: "real list"
  val_acc_items :: "nat list"
  figure :: "figure option"

definition val_init :: val_state where
  "val_init = \<lparr>y_true = [], y_pred = [], val_loss_items = [], val_acc_items = [],
     figure = None\<rparr>"

text \<open>
  The body of the loop over \<^verbatim>\<open>val_loaders[i]\<close>, lines 293 to 313. The batches are
  numbered only to look their loss up. \<open>draw\<close> is the random source of
  \<^verbatim>\<open>random.choices\<close>.
\<close>

definition val_batch ::
  "args \<Rightarrow> (nat \<Rightarrow> real) \<Rightarrow> (nat \<Rightarrow> nat) \<Rightarrow> nat \<times> sample list \<Rightarrow> val_state
     \<Rightarrow> error + val_state" where
  "val_batch a losses draw ib st =
     (case ib of (idx, batch) \<Rightarrow>
        let loss_item = losses idx;
            acc_item = batch_matches batch;
            st1 = st\<lparr>y_true := y_true st @ map fst batch,
                     y_pred := y_pred st @ map snd batch,
                     val_loss_items := val_loss_items st @ [loss_item],
                     val_acc_items := val_acc_items st @ [acc_item]\<rparr>
        in if figure st1 = None then
             (case grid_image batch 16
                     (if dataset a \<noteq> ''MaskSplitByProfileDataset'' then Some draw else None) of
                Inl err \<Rightarrow> Inl err
              | Inr fig \<Rightarrow> Inr (st1\<lparr>figure := Some fig\<rparr>))
           else Inr st1)"

fun val_loop ::
  "args \<Rightarrow> (nat \<Rightarrow> real) \<Rightarrow> (nat \<Rightarrow> nat) \<Rightarrow> (nat \<times> sample list) list \<Rightarrow> val_state
     \<Rightarrow> error + val_state" where
  "val_loop a losses draw [] st = Inr st"
| "val_loop a losses draw (ib # rest) st =
     (case val_batch a losses draw ib st of
        Inl err \<Rightarrow> Inl err
      | Inr st' \<Rightarrow> val_loop a losses draw rest st')"

record val_result =
  val_loss :: pyfloat
  val_acc :: pyfloat
  val_f1 :: pyfloat
  val_figure :: "figure option"

text \<open>
  Lines 287 to 317: the pass over the validation loader, then the epoch's loss,
  accuracy and F1, divided with numpy's division.
\<close>

definition validate_epoch ::
  "args \<Rightarrow> sample list \<Rightarrow> (nat \<Rightarrow> real) \<Rightarrow> (nat \<Rightarrow> nat) \<Rightarrow> error + val_result" where
  "validate_epoch a samples losses draw =
     (let loader = drop_last_batches (nat (valid_batch_size a)) samples in
      case val_loop a losses draw (enumerate 0 loader) val_init of
        Inl err \<Rightarrow> Inl err
      | Inr st \<Rightarrow>
          (case f1_score (y_pred st) (y_true st) of
             Inl err \<Rightarrow> Inl err
           | Inr f1 \<Rightarrow>
               Inr \<lparr>val_loss = np_div (sum_list (val_loss_items st)) (real (length loader)),
                    val_acc = np_div (real (sum_list (val_acc_items st)))
                      (real_of_int (valid_batch_size a * int (length loader))),
                    val_f1 = f1,
                    val_figure = figure st\<rparr>))"

section \<open>The ensemble loop\<close>

text \<open>
  What a run does to the five models, in the order it does it: the start of a slot's
  training pass and of its validation pass, the two \<^verbatim>\<open>torch.save\<close> calls, and the
  call of a fresh \<^verbatim>\<open>EarlyStopping\<close> monitor with its answer. Each carries the epoch
  (counted from 0) and the slot.
\<close>

datatype event =
  TrainCall nat nat
| ValidateCall nat nat
| SaveBest nat nat
| SaveLast nat nat
| EarlyStopCheck nat nat bool

record run_state =
  best_val_accs :: "pyfloat list"
  best_val_losses :: "pyfloat list"
  best_f1_scores :: "pyfloat list"
  events :: "event list"
  logger :: "log_entry list"

text \<open>Lines 214 to 216.\<close>

definition init_state :: run_state where
  "init_state = \<lparr>best_val_accs = replicate 5 (Fin 0),
     best_val_losses = replicate 5 PInf,
     best_f1_scores = replicate 5 (Fin 0),
     events = [], logger = []\<rparr>"

text \<open>
  What the run reads from outside the file, per epoch and slot: the samples of the
  training and validation partitions in loader order with the model's predictions, the
  loss of every batch, the random source of the figure, and the truth value that
  \<^verbatim>\<open>EarlyStopping()(val_loss, models[i])\<close> returns. The class is in
  \<^verbatim>\<open>early_stopping.py\<close>; the monitor is constructed anew at every call, so its
  answer is a function of the call's arguments.
\<close>

record env =
  train_samples :: "nat \<Rightarrow> nat \<Rightarrow> sample list"
  train_losses :: "nat \<Rightarrow> nat \<Rightarrow> nat \<Rightarrow> real"
  val_samples :: "nat \<Rightarrow> nat \<Rightarrow> sample list"
  val_losses :: "nat \<Rightarrow> nat \<Rightarrow> nat \<Rightarrow> real"
  random_draws :: "nat \<Rightarrow> nat \<Rightarrow> nat \<Rightarrow> nat"
  early_stopping :: "nat \<Rightarrow> nat \<Rightarrow> pyfloat \<Rightarrow> bool"

text \<open>
  Lines 323 to 328, the checkpoint step of slot \<open>i\<close>: \<open>f1\<close> is this epoch's
  validation F1 and the best F1 so far is read from the slot's entry of the list.
\<close>

definition checkpoint :: "nat \<Rightarrow> nat \<Rightarrow> pyfloat \<Rightarrow> run_state \<Rightarrow> run_state" where
  "checkpoint epoch i f1 s =
     (let best_f1_score = best_f1_scores s ! i;
          s1 = (if fgt f1 best_f1_score
                then s\<lparr>events := events s @ [SaveBest epoch i],
                       best_f1_scores := (best_f1_scores s)[i := f1]\<rparr>
                else s)
      in s1\<lparr>events := events s1 @ [SaveLast epoch i]\<rparr>)"

text \<open>Lines 319 to 322: the running maximum and minimum of slot \<open>i\<close>.\<close>

definition track_best :: "nat \<Rightarrow> val_result \<Rightarrow> run_state \<Rightarrow> run_state" where
  "track_best i r s =
     (let best_val_acc = py_max (best_val_accs s ! i) (val_acc r);
          best_val_loss = py_min (best_val_losses s ! i) (val_loss r)
      in s\<lparr>best_val_accs := (best_val_accs s)[i := best_val_acc],
            best_val_losses := (best_val_losses s)[i := best_val_loss]\<rparr>)"

text \<open>
  Lines 334 to 337. After a validation pass without any batch there is no figure; what
  the writer does with that is the library's business and only the call is recorded.
\<close>

definition log_validation :: "nat \<Rightarrow> val_result \<Rightarrow> run_state \<Rightarrow> run_state" where
  "log_validation epoch r s =
     s\<lparr>logger := logger s @
          [AddScalar ''Val/loss'' (val_loss r) epoch,
           AddScalar ''Val/accuracy'' (val_acc r) epoch,
           AddScalar ''Val/F1'' (val_f1 r) epoch,
           AddFigure ''results'' (val_figure r) epoch]\<rparr>"

text \<open>How the body of a loop ends: with an exception, a \<^verbatim>\<open>break\<close>, or normally.\<close>

datatype ctl = Raise error run_state | Break run_state | Continue run_state

text \<open>
  Lines 219 to 343, the body of \<^verbatim>\<open>for i in range(5)\<close>: training pass, validation
  pass, best values and checkpoints, logging, then the early-stop check whose
  \<^verbatim>\<open>break\<close> leaves the loop over the slots.
\<close>

definition slot_step :: "env \<Rightarrow> args \<Rightarrow> nat \<Rightarrow> nat \<Rightarrow> run_state \<Rightarrow> ctl" where
  "slot_step ev a epoch i s =
     (let s1 = s\<lparr>events := events s @ [TrainCall epoch i]\<rparr> in
      case train_epoch a epoch (train_samples ev epoch i) (train_losses ev epoch i) of
        Inl err \<Rightarrow> Raise err s1
      | Inr tr \<Rightarrow>
          let s2 = s1\<lparr>logger := logger s1 @ train_scalars tr,
                      events := events s1 @ [ValidateCall epoch i]\<rparr> in
          (case validate_epoch a (val_samples ev epoch i) (val_losses ev epoch i)
                  (random_draws ev epoch i) of
             Inl err \<Rightarrow> Raise err s2
           | Inr vr \<Rightarrow>
               let s3 = track_best i vr s2;
                   s4 = checkpoint epoch i (val_f1 vr) s3;
                   s5 = log_validation epoch vr s4;
                   early_stop = early_stopping ev epoch i (val_loss vr);
                   s6 = s5\<lparr>events := events s5 @ [EarlyStopCheck epoch i early_stop]\<rparr>
               in if early_stop then Break s6 else Continue s6))"

datatype outcome = Aborted error run_state | Finished run_state

fun slots_loop :: "env \<Rightarrow> args \<Rightarrow> nat \<Rightarrow> nat list \<Rightarrow> run_state \<Rightarrow> outcome" where
  "slots_loop ev a epoch [] s = Finished s"
| "slots_loop ev a epoch (i # rest) s =
     (case slot_step ev a epoch i s of
        Raise err s' \<Rightarrow> Aborted err s'
      | Break s' \<Rightarrow> Finished s'
      | Continue s' \<Rightarrow> slots_loop ev a epoch rest s')"

fun epochs_loop :: "env \<Rightarrow> args \<Rightarrow> nat list \<Rightarrow> run_state \<Rightarrow> outcome" where
  "epochs_loop ev a [] s = Finished s"
| "epochs_loop ev a (epoch # rest) s =
     (case slots_loop ev a epoch [0..<5] s of
        Aborted err s' \<Rightarrow> Aborted err s'
      | Finished s' \<Rightarrow> epochs_loop ev a rest s')"

text \<open>
  \<^verbatim>\<open>train\<close> from the construction of the loaders on, up to the end of the first
  \<open>n\<close> epochs: a \<^verbatim>\<open>DataLoader\<close> refuses a batch size that is not positive; then
  the loop over the epochs. The whole run is the one over \<^verbatim>\<open>range(args.epochs)\<close>.
\<close>

definition run_epochs :: "env \<Rightarrow> args \<Rightarrow> nat \<Rightarrow> outcome" where
  "run_epochs ev a n =
     (if batch_size a \<le> 0 \<or> valid_batch_size a \<le> 0 then Aborted ValueError init_state
      else epochs_loop ev a [0..<n] init_state)"

definition train :: "env \<Rightarrow> args \<Rightarrow> outcome" where
  "train ev a = run_epochs ev a (nat (epochs a))"

fun final_state :: "outcome \<Rightarrow> run_state" where
  "final_state (Aborted err s) = s"
| "final_state (Finished s) = s"

section \<open>The checkpoint step over the epochs of one slot\<close>

text \<open>
  The checkpoint step of slot \<open>i\<close> applied epoch after epoch to a sequence of
  validation F1 values, the first one at epoch \<open>epoch\<close>.
\<close>

fun checkpoint_seq :: "nat \<Rightarrow> nat \<Rightarrow> pyfloat list \<Rightarrow> run_state \<Rightarrow> run_state" where
  "checkpoint_seq i epoch [] s = s"
| "checkpoint_seq i epoch (f1 # rest) s =
     checkpoint_seq i (Suc epoch) rest (checkpoint epoch i f1 s)"

text \<open>
  The checkpoint manager in the words of the specification: a "last" snapshot every
  epoch; a "best" snapshot only when the epoch's F1 is strictly greater than the best
  F1 so far, which the write updates.
\<close>

fun spec_checkpoints :: "nat \<Rightarrow> nat \<Rightarrow> pyfloat \<Rightarrow> pyfloat list \<Rightarrow> event list" where
  "spec_checkpoints i epoch best_f1_so_far [] = []"
| "spec_checkpoints i epoch best_f1_so_far (f1 # rest) =
     (if fgt f1 best_f1_so_far
      then SaveBest epoch i # SaveLast epoch i # spec_checkpoints i (Suc epoch) f1 rest
      else SaveLast epoch i # spec_checkpoints i (Suc epoch) best_f1_so_far rest)"

fun spec_best_f1 :: "pyfloat \<Rightarrow> pyfloat list \<Rightarrow> pyfloat" where
  "spec_best_f1 best_f1_so_far [] = best_f1_so_far"
| "spec_best_f1 best_f1_so_far (f1 # rest) =
     spec_best_f1 (if fgt f1 best_f1_so_far then f1 else best_f1_so_far) rest"

text \<open>The epochs, counted from 1, at which a trace writes the snapshots of slot \<open>i\<close>.\<close>

definition best_epochs :: "nat \<Rightarrow> event list \<Rightarrow> nat list" where
  "best_epochs i evs =
     concat (map (\<lambda>ev. case ev of SaveBest e j \<Rightarrow> if j = i then [Suc e] else [] | _ \<Rightarrow> []) evs)"

definition last_epochs :: "nat \<Rightarrow> event list \<Rightarrow> nat list" where
  "last_epochs i evs =
     concat (map (\<lambda>ev. case ev of SaveLast e j \<Rightarrow> if j = i then [Suc e] else [] | _ \<Rightarrow> []) evs)"

definition f1_example :: "pyfloat list" where
  "f1_example = [Fin 0.1, Fin 0.3, Fin 0.2, Fin 0.5, Fin 0.5, Fin 0.4]"

section \<open>Auxiliary notions for the proofs\<close>

text \<open>The state a loop body leaves behind, however it ends.\<close>

fun ctl_state :: "ctl \<Rightarrow> run_state" where
  "ctl_state (Raise err s) = s"
| "ctl_state (Break s) = s"
| "ctl_state (Continue s) = s"

text \<open>
  The invariant of the best values (five entries each, none of them NaN) and their
  order between an earlier and a later state.
\<close>

definition bests_ok :: "run_state \<Rightarrow> bool" where
  "bests_ok s =
     (length (best_val_accs s) = 5 \<and> length (best_val_losses s) = 5
      \<and> length (best_f1_scores s) = 5
      \<and> NaN \<notin> set (best_val_accs s) \<and> NaN \<notin> set (best_val_losses s)
      \<and> NaN \<notin> set (best_f1_scores s))"

definition bests_le :: "run_state \<Rightarrow> run_state \<Rightarrow> bool" where
  "bests_le s s' =
     (\<forall>i<5. fle (best_val_accs s ! i) (best_val_accs s' ! i)
        \<and> fle (best_f1_scores s ! i) (best_f1_scores s' ! i)
        \<and> fle (best_val_losses s' ! i) (best_val_losses s ! i))"

section \<open>A small run\<close>

text \<open>
  Two epochs over three training samples in batches of two and sixteen validation
  samples in one batch. In the first epoch half of the validation predictions are
  right, in the second all of them; \<open>stop\<close> says where a fresh monitor answers with
  a true value.
\<close>

definition demo_args :: args where
  "demo_args = \<lparr>epochs = 2, batch_size = 2, valid_batch_size = 16, log_interval = 1,
     dataset = ''MaskSplitByProfileDataset''\<rparr>"

definition demo_env :: "(nat \<Rightarrow> nat \<Rightarrow> bool) \<Rightarrow> env" where
  "demo_env stop = \<lparr>train_samples = (\<lambda>e i. [(0, 0), (1, 0), (1, 1)]),
     train_losses = (\<lambda>e i idx. 1),
     val_samples = (\<lambda>e i. replicate 8 (0, 0) @ replicate 8 (1, if e = 0 then 0 else 1)),
     val_losses = (\<lambda>e i idx. if e = 0 then 2 else 1),
     random_draws = (\<lambda>e i k. k),
     early_stopping = (\<lambda>e i l. stop e i)\<rparr>"


section \<open>Traces of whole runs\<close>

text \<open>
  The events of one complete slot step, given whether it wrote the "best" snapshot and
  what the early-stop check answered; of the slot steps of one epoch, the slots taken
  in the order 0, 1, 2, ...; and of the epochs of a run, taken in the order 0, 1, 2, ...
\<close>

definition slot_events :: "nat \<Rightarrow> nat \<Rightarrow> bool \<times> bool \<Rightarrow> event list" where
  "slot_events epoch i flags =
     [TrainCall epoch i, ValidateCall epoch i]
     @ (if fst flags then [SaveBest epoch i] else [])
     @ [SaveLast epoch i, EarlyStopCheck epoch i (snd flags)]"

definition epoch_events :: "nat \<Rightarrow> (bool \<times> bool) list \<Rightarrow> event list" where
  "epoch_events epoch fl = concat (map (\<lambda>(i, flags). slot_events epoch i flags) (enumerate 0 fl))"

definition run_events :: "(bool \<times> bool) list list \<Rightarrow> event list" where
  "run_events fls = concat (map (\<lambda>(epoch, fl). epoch_events epoch fl) (enumerate 0 fls))"


section \<open>Closed forms of the two passes\<close>

text \<open>
  The scalars that the training pass of an epoch logs for window \<open>w\<close>, the batches
  \<open>w * N\<close> to \<open>w * N + N - 1\<close> with \<open>N\<close> the logging interval: the mean loss and
  the mean accuracy of the window, tagged with the step of its last batch.
\<close>

definition window_scalars ::
  "args \<Rightarrow> nat \<Rightarrow> nat \<Rightarrow> (nat \<Rightarrow> real) \<Rightarrow> sample list list \<Rightarrow> nat \<Rightarrow> log_entry list" where
  "window_scalars a epoch n_batches losses loader w =
     (let N = nat (log_interval a);
          window = [w * N..<w * N + N];
          step = epoch * n_batches + (w * N + N - 1)
      in [AddScalar ''Train/loss''
            (Fin (sum_list (map losses window) / real_of_int (log_interval a))) step,
          AddScalar ''Train/accuracy''
            (Fin (real (sum_list (map (\<lambda>j. batch_matches (loader ! j)) window))
                    / real_of_int (batch_size a) / real_of_int (log_interval a))) step])"

text \<open>The state of the training pass when the first \<open>k\<close> batches are done.\<close>

definition train_prefix_state ::
  "args \<Rightarrow> nat \<Rightarrow> nat \<Rightarrow> (nat \<Rightarrow> real) \<Rightarrow> sample list list \<Rightarrow> nat \<Rightarrow> train_state" where
  "train_prefix_state a epoch n_batches losses loader k =
     (let N = nat (log_interval a) in
      \<lparr>y_true = map fst (concat (take k loader)),
       y_pred = map snd (concat (take k loader)),
       loss_value = sum_list (map losses [0..<k]),
       matches = sum_list (map batch_matches (take k loader)),
       temp_loss_value = sum_list (map losses [k div N * N..<k]),
       temp_matches = sum_list (map (\<lambda>j. batch_matches (loader ! j)) [k div N * N..<k]),
       train_log = concat (map (window_scalars a epoch n_batches losses loader) [0..<k div N])\<rparr>)"

text \<open>The steps of the scalars that a log holds under a tag, in the order of the log.\<close>

definition scalar_steps :: "string \<Rightarrow> log_entry list \<Rightarrow> nat list" where
  "scalar_steps tag lg =
     concat (map (\<lambda>entry. case entry of
                    AddScalar t v step \<Rightarrow> if t = tag then [step] else []
                  | AddFigure t f step \<Rightarrow> []) lg)"

text \<open>
  The validation metrics as the specification describes them, from the samples and
  the batch losses alone: mean loss over the full batches, correct predictions over
  batch size times number of full batches, macro F1 of the true against the predicted
  labels of the samples in full batches.
\<close>

definition val_metrics :: "args \<Rightarrow> sample list \<Rightarrow> (nat \<Rightarrow> real) \<Rightarrow> figure option \<Rightarrow> val_result" where
  "val_metrics a samples losses fig =
     (let bs = nat (valid_batch_size a);
          n_batches = length samples div bs;
          seen = take (bs * n_batches) samples
      in \<lparr>val_loss = np_div (sum_list (map losses [0..<n_batches])) (real n_batches),
          val_acc = np_div (real (batch_matches seen)) (real (bs * n_batches)),
          val_f1 = (case f1_score (map fst seen) (map snd seen) of
                      Inl err \<Rightarrow> NaN
                    | Inr f1 \<Rightarrow> f1),
          val_figure = fig\<rparr>)"

text \<open>The exception a run ends with, if any.\<close>

fun raised :: "outcome \<Rightarrow> error option" where
  "raised (Aborted err s) = Some err"
| "raised (Finished s) = None"

text \<open>Samples for examples: labels cycle through three classes, predictions through two.\<close>

definition demo_partition :: "nat \<Rightarrow> sample list" where
  "demo_partition n = map (\<lambda>k. (k mod 3, k mod 2)) [0..<n]"


section \<open>The run directory\<close>

text \<open>
  Decimal digits as the regular expression and \<^verbatim>\<open>int\<close> read them (ASCII only), and
  the decimal string of a number as an f-string writes it.
\<close>

definition is_digit :: "char \<Rightarrow> bool" where
  "is_digit c = (c \<in> set ''0123456789'')"

definition digit_value :: "char \<Rightarrow> nat" where
  "digit_value c = of_char c - 48"

definition int_of_digits :: "string \<Rightarrow> nat" where
  "int_of_digits ds = foldl (\<lambda>n c. 10 * n + digit_value c) 0 ds"

function str_of_nat :: "nat \<Rightarrow> string" where
  "str_of_nat n =
     (if n < 10 then [char_of (48 + n)]
      else str_of_nat (n div 10) @ [char_of (48 + n mod 10)])"
  by pat_completeness auto
termination
  by (relation "measure (\<lambda>n. n)") auto

declare str_of_nat.simps [simp del]

text \<open>
  \<^verbatim>\<open>Path.name\<close> and \<^verbatim>\<open>Path.stem\<close> of a path given as the string that
  \<^verbatim>\<open>str(Path(path))\<close> returns: the final component, and the final component without
  its last suffix (a dot that is neither the first nor the last character of the name
  starts the suffix).
\<close>

definition path_name :: "string \<Rightarrow> string" where
  "path_name path = rev (takeWhile (\<lambda>c. c \<noteq> CHR ''/'') (rev path))"

definition path_stem :: "string \<Rightarrow> string" where
  "path_stem path =
     (let name = path_name path in
      if CHR ''.'' \<notin> set name then name
      else
        let i = length name - length (takeWhile (\<lambda>c. c \<noteq> CHR ''.'') (rev name)) - 1
        in if 0 < i \<and> i < length name - 1 then take i name else name)"

text \<open>
  \<^verbatim>\<open>re.search(rf"%s(\d+)" % path.stem, d)\<close> for a stem without regular-expression
  metacharacters: the leftmost position of \<open>d\<close> where the stem is followed by at
  least one digit, and there the number that the longest run of digits spells.
\<close>

definition match_here :: "string \<Rightarrow> string \<Rightarrow> nat option" where
  "match_here stem d =
     (if take (length stem) d = stem
      then let digits = takeWhile is_digit (drop (length stem) d)
           in if digits = [] then None else Some (int_of_digits digits)
      else None)"

fun re_search :: "string \<Rightarrow> string \<Rightarrow> nat option" where
  "re_search stem [] = match_here stem []"
| "re_search stem (c # cs) =
     (case match_here stem (c # cs) of
        Some n \<Rightarrow> Some n
      | None \<Rightarrow> re_search stem cs)"

text \<open>
  \<^verbatim>\<open>glob.glob(f"{path}*")\<close> over the paths that exist (\<open>fs\<close>, written like
  \<open>path\<close>), for a path without glob metacharacters: the entries that continue
  \<open>path\<close> within its final component.
\<close>

definition glob_star :: "string list \<Rightarrow> string \<Rightarrow> string list" where
  "glob_star fs path =
     filter (\<lambda>d. take (length path) d = path \<and> CHR ''/'' \<notin> set (drop (length path) d)) fs"

text \<open>Lines 72 to 87.\<close>

definition increment_path :: "string list \<Rightarrow> string \<Rightarrow> bool \<Rightarrow> string" where
  "increment_path fs path exist_ok =
     (if (path \<in> set fs \<and> exist_ok) \<or> path \<notin> set fs then path
      else
        let dirs = glob_star fs path;
            matches = map (re_search (path_stem path)) dirs;
            i = concat (map (\<lambda>m. case m of Some k \<Rightarrow> [k] | None \<Rightarrow> []) matches);
            n = (if i \<noteq> [] then Max (set i) + 1 else 2)
        in path @ str_of_nat n)"

section \<open>Checkpoint gating\<close>

lemma checkpoint_events:
  "events (checkpoint epoch i f1 s) =
     events s @ (if fgt f1 (best_f1_scores s ! i) then [SaveBest epoch i] else [])
       @ [SaveLast epoch i]"
  by (simp add: checkpoint_def Let_def)

lemma checkpoint_best:
  "i < length (best_f1_scores s) \<Longrightarrow>
   best_f1_scores (checkpoint epoch i f1 s) ! i =
     (if fgt f1 (best_f1_scores s ! i) then f1 else best_f1_scores s ! i)"
  by (simp add: checkpoint_def Let_def)

lemma checkpoint_length:
  "length (best_f1_scores (checkpoint epoch i f1 s)) = length (best_f1_scores s)"
  by (simp add: checkpoint_def Let_def)

lemma checkpoint_seq_events:
  "i < length (best_f1_scores s) \<Longrightarrow>
   events (checkpoint_seq i epoch fs s) =
     events s @ spec_checkpoints i epoch (best_f1_scores s ! i) fs"
proof (induction fs arbitrary: s epoch)
  case Nil
  then show ?case by simp
next
  case (Cons f1 rest)
  have len: "i < length (best_f1_scores (checkpoint epoch i f1 s))"
    using Cons.prems by (simp add: checkpoint_length)
  show ?case
    using Cons.IH [OF len, of "Suc epoch"] Cons.prems
    by (simp add: checkpoint_events checkpoint_best)
qed

lemma checkpoint_seq_best:
  "i < length (best_f1_scores s) \<Longrightarrow>
   best_f1_scores (checkpoint_seq i epoch fs s) ! i = spec_best_f1 (best_f1_scores s ! i) fs"
proof (induction fs arbitrary: s epoch)
  case Nil
  then show ?case by simp
next
  case (Cons f1 rest)
  have len: "i < length (best_f1_scores (checkpoint epoch i f1 s))"
    using Cons.prems by (simp add: checkpoint_length)
  show ?case
    using Cons.IH [OF len, of "Suc epoch"] Cons.prems
    by (simp add: checkpoint_best)
qed

lemma init_state_fields:
  "length (best_f1_scores init_state) = 5"
  "length (best_val_accs init_state) = 5"
  "length (best_val_losses init_state) = 5"
  "events init_state = []"
  "i < 5 \<Longrightarrow> best_f1_scores init_state ! i = Fin 0"
  "i < 5 \<Longrightarrow> best_val_accs init_state ! i = Fin 0"
  "i < 5 \<Longrightarrow> best_val_losses init_state ! i = PInf"
  by (simp_all add: init_state_def)

lemma spec_checkpoints_example:
  "spec_checkpoints i 0 (Fin 0) f1_example =
     [SaveBest 0 i, SaveLast 0 i, SaveBest 1 i, SaveLast 1 i, SaveLast 2 i,
      SaveBest 3 i, SaveLast 3 i, SaveLast 4 i, SaveLast 5 i]"
  by (simp add: f1_example_def fgt_def)

text \<open>
  C1, as the code has it. For every slot and every sequence of validation F1 values,
  the checkpoint step writes the "best" snapshot exactly when the epoch's F1 is
  strictly greater than the slot's best F1 so far, updates the best F1 on that write
  only, and writes the "last" snapshot in every epoch: run from the initial state
  (best F1 0), the writes and the final best F1 are those of the specification's
  checkpoint manager.
  For the F1 values 0.1, 0.3, 0.2, 0.5, 0.5, 0.4 the "best" snapshot is written at
  the epochs 1, 2 and 4 (counted from 1) and the "last" snapshot at all six.
\<close>

theorem checkpoint_gating:
  "i < 5 \<Longrightarrow>
   events (checkpoint epoch i f1 s) =
     events s @ (if fgt f1 (best_f1_scores s ! i) then [SaveBest epoch i] else [])
       @ [SaveLast epoch i]
   \<and> best_f1_scores (checkpoint epoch i f1 s) =
       (if fgt f1 (best_f1_scores s ! i) then (best_f1_scores s)[i := f1]
        else best_f1_scores s)
   \<and> events (checkpoint_seq i 0 fs init_state) = spec_checkpoints i 0 (Fin 0) fs
   \<and> best_f1_scores (checkpoint_seq i 0 fs init_state) ! i = spec_best_f1 (Fin 0) fs
   \<and> best_epochs i (events (checkpoint_seq i 0 f1_example init_state)) = [1, 2, 4]
   \<and> last_epochs i (events (checkpoint_seq i 0 f1_example init_state)) = [1, 2, 3, 4, 5, 6]"
proof -
  assume i: "i < 5"
  have ev: "events (checkpoint_seq i 0 xs init_state) = spec_checkpoints i 0 (Fin 0) xs" for xs
    using checkpoint_seq_events [of i init_state 0 xs] i by (simp add: init_state_fields)
  have best: "best_f1_scores (checkpoint_seq i 0 fs init_state) ! i = spec_best_f1 (Fin 0) fs"
    using checkpoint_seq_best [of i init_state 0 fs] i by (simp add: init_state_fields)
  have upd: "best_f1_scores (checkpoint epoch i f1 s) =
       (if fgt f1 (best_f1_scores s ! i) then (best_f1_scores s)[i := f1]
        else best_f1_scores s)"
    by (simp add: checkpoint_def Let_def)
  show ?thesis
    by (simp add: ev best upd checkpoint_events spec_checkpoints_example best_epochs_def
        last_epochs_def)
qed

theorem checkpoint_gating_witness:
  "(2::nat) < 5
   \<and> events (checkpoint_seq 2 0 [Fin 0.2, Fin 0.2, Fin 0.7] init_state) =
       [SaveBest 0 2, SaveLast 0 2, SaveLast 1 2, SaveBest 2 2, SaveLast 2 2]
   \<and> best_epochs 2 (events (checkpoint_seq 2 0 f1_example init_state)) = [1, 2, 4]"
  using checkpoint_gating [of 2 0 "Fin 0" init_state "[Fin 0.2, Fin 0.2, Fin 0.7]"]
  by (simp add: fgt_def)

theorem checkpoint_example_counterexample:
  "best_epochs 0 (events (checkpoint_seq 0 0 f1_example init_state)) \<noteq> [1, 4]"
  by (simp add: checkpoint_seq_events init_state_fields spec_checkpoints_example
      best_epochs_def)

section \<open>Monotone best values\<close>

lemma fle_refl: "a \<noteq> NaN \<Longrightarrow> fle a a"
  by (cases a) (simp_all add: fle_def)

lemma fle_trans: "fle a b \<Longrightarrow> fle b c \<Longrightarrow> fle a c"
  by (cases a; cases b; cases c) (simp_all add: fle_def)

lemma flt_not_NaN: "flt a b \<Longrightarrow> a \<noteq> NaN \<and> b \<noteq> NaN"
  by (cases a; cases b) simp_all

lemma flt_fle: "flt a b \<Longrightarrow> fle a b"
  by (cases a; cases b) (simp_all add: fle_def)

lemma py_max_ge: "a \<noteq> NaN \<Longrightarrow> fle a (py_max a b) \<and> py_max a b \<noteq> NaN"
  using flt_not_NaN [of a b] flt_fle [of a b] by (auto simp: py_max_def fgt_def fle_refl)

lemma py_min_le: "a \<noteq> NaN \<Longrightarrow> fle (py_min a b) a \<and> py_min a b \<noteq> NaN"
  using flt_not_NaN [of b a] flt_fle [of b a] by (auto simp: py_min_def fle_refl)

lemma NaN_notin_update: "NaN \<notin> set xs \<Longrightarrow> v \<noteq> NaN \<Longrightarrow> NaN \<notin> set (xs[i := v])"
  using set_update_subset_insert [of xs i v] by auto

lemma nth_update_cases:
  "j < length xs \<Longrightarrow> xs[i := v] ! j = (if i = j then v else xs ! j)"
  by (cases "i = j") simp_all

lemma bests_le_refl: "bests_ok s \<Longrightarrow> bests_le s s"
  by (auto simp: bests_ok_def bests_le_def intro!: fle_refl) (metis nth_mem)+

lemma bests_le_trans: "bests_le s s' \<Longrightarrow> bests_le s' s'' \<Longrightarrow> bests_le s s''"
  unfolding bests_le_def by (blast intro: fle_trans)

lemma track_best_mono:
  assumes "bests_ok s"
  shows "bests_ok (track_best i r s) \<and> bests_le s (track_best i r s)"
proof -
  have nn: "\<And>j. j < 5 \<Longrightarrow> best_val_accs s ! j \<noteq> NaN \<and> best_val_losses s ! j \<noteq> NaN \<and> best_f1_scores s ! j \<noteq> NaN"
    using assms unfolding bests_ok_def by (metis nth_mem)
  have ok: "bests_ok (track_best i r s)"
  proof (cases "i < 5")
    case True
    then show ?thesis using assms nn [OF True]
      by (simp add: bests_ok_def track_best_def Let_def NaN_notin_update py_max_ge py_min_le)
  next
    case False
    then show ?thesis using assms
      by (simp add: bests_ok_def track_best_def Let_def list_update_beyond)
  qed
  have le: "bests_le s (track_best i r s)"
    unfolding bests_le_def
  proof (intro allI impI)
    fix j :: nat assume j: "j < 5"
    show "fle (best_val_accs s ! j) (best_val_accs (track_best i r s) ! j) \<and>
          fle (best_f1_scores s ! j) (best_f1_scores (track_best i r s) ! j) \<and>
          fle (best_val_losses (track_best i r s) ! j) (best_val_losses s ! j)"
      using assms nn [OF j] j
      by (simp add: bests_ok_def track_best_def Let_def nth_update_cases py_max_ge py_min_le fle_refl)
  qed
  show ?thesis using ok le by simp
qed

lemma checkpoint_mono:
  assumes "bests_ok s"
  shows "bests_ok (checkpoint epoch i f1 s) \<and> bests_le s (checkpoint epoch i f1 s)"
proof -
  have nn: "\<And>j. j < 5 \<Longrightarrow> best_val_accs s ! j \<noteq> NaN \<and> best_val_losses s ! j \<noteq> NaN \<and> best_f1_scores s ! j \<noteq> NaN"
    using assms unfolding bests_ok_def by (metis nth_mem)
  have f: "fgt f1 (best_f1_scores s ! i) \<Longrightarrow> f1 \<noteq> NaN \<and> fle (best_f1_scores s ! i) f1"
    using flt_not_NaN [of "best_f1_scores s ! i" f1] flt_fle [of "best_f1_scores s ! i" f1]
    by (simp add: fgt_def)
  have ok: "bests_ok (checkpoint epoch i f1 s)"
    using assms f by (simp add: bests_ok_def checkpoint_def Let_def NaN_notin_update)
  have le: "bests_le s (checkpoint epoch i f1 s)"
    unfolding bests_le_def
  proof (intro allI impI)
    fix j :: nat assume j: "j < 5"
    show "fle (best_val_accs s ! j) (best_val_accs (checkpoint epoch i f1 s) ! j) \<and>
          fle (best_f1_scores s ! j) (best_f1_scores (checkpoint epoch i f1 s) ! j) \<and>
          fle (best_val_losses (checkpoint epoch i f1 s) ! j) (best_val_losses s ! j)"
      using assms nn [OF j] j f
      by (auto simp: bests_ok_def checkpoint_def Let_def nth_update_cases fle_refl)
  qed
  show ?thesis using ok le by simp
qed

lemma events_update_bests [simp]:
  "bests_ok (s\<lparr>events := evs\<rparr>) = bests_ok s"
  "bests_ok (s\<lparr>logger := lg\<rparr>) = bests_ok s"
  "bests_le s0 (s\<lparr>events := evs\<rparr>) = bests_le s0 s"
  "bests_le s0 (s\<lparr>logger := lg\<rparr>) = bests_le s0 s"
  by (simp_all add: bests_ok_def bests_le_def)

lemma slot_step_mono:
  assumes "bests_ok s"
  shows "bests_ok (ctl_state (slot_step ev a epoch i s))
         \<and> bests_le s (ctl_state (slot_step ev a epoch i s))"
proof (cases "train_epoch a epoch (train_samples ev epoch i) (train_losses ev epoch i)")
  case (Inl err)
  then show ?thesis using assms by (simp add: slot_step_def Let_def bests_le_refl)
next
  case (Inr tr)
  note tr = this
  show ?thesis
  proof (cases "validate_epoch a (val_samples ev epoch i) (val_losses ev epoch i) (random_draws ev epoch i)")
    case (Inl err)
    then show ?thesis using assms tr by (simp add: slot_step_def Let_def bests_le_refl)
  next
    case (Inr vr)
    define s2 where "s2 = s\<lparr>events := events s @ [TrainCall epoch i],
        logger := logger s @ train_scalars tr,
        events := events s @ [TrainCall epoch i] @ [ValidateCall epoch i]\<rparr>"
    have ok2: "bests_ok s2" and le2: "bests_le s s2"
      using assms by (simp_all add: s2_def bests_le_refl)
    have t: "bests_ok (track_best i vr s2) \<and> bests_le s2 (track_best i vr s2)"
      using track_best_mono [OF ok2] .
    have c: "bests_ok (checkpoint epoch i (val_f1 vr) (track_best i vr s2))
       \<and> bests_le (track_best i vr s2) (checkpoint epoch i (val_f1 vr) (track_best i vr s2))"
      using checkpoint_mono t by blast
    have le: "bests_le s (checkpoint epoch i (val_f1 vr) (track_best i vr s2))"
      using le2 t c bests_le_trans by blast
    show ?thesis using tr Inr c le
      by (simp add: slot_step_def Let_def log_validation_def s2_def)
  qed
qed

lemma slots_loop_mono:
  "bests_ok s \<Longrightarrow>
   bests_ok (final_state (slots_loop ev a epoch is s))
   \<and> bests_le s (final_state (slots_loop ev a epoch is s))"
proof (induction "is" arbitrary: s)
  case Nil
  then show ?case by (simp add: bests_le_refl)
next
  case (Cons i rest)
  have st: "bests_ok (ctl_state (slot_step ev a epoch i s))
         \<and> bests_le s (ctl_state (slot_step ev a epoch i s))"
    using slot_step_mono [OF Cons.prems] .
  show ?case
  proof (cases "slot_step ev a epoch i s")
    case (Raise err s')
    then show ?thesis using st by simp
  next
    case (Break s')
    then show ?thesis using st by simp
  next
    case (Continue s')
    then show ?thesis using st Cons.IH [of s'] bests_le_trans by auto
  qed
qed

lemma epochs_loop_mono:
  "bests_ok s \<Longrightarrow>
   bests_ok (final_state (epochs_loop ev a es s))
   \<and> bests_le s (final_state (epochs_loop ev a es s))"
proof (induction es arbitrary: s)
  case Nil
  then show ?case by (simp add: bests_le_refl)
next
  case (Cons e rest)
  have st: "bests_ok (final_state (slots_loop ev a e [0..<5] s))
   \<and> bests_le s (final_state (slots_loop ev a e [0..<5] s))"
    using slots_loop_mono [OF Cons.prems] .
  show ?case
  proof (cases "slots_loop ev a e [0..<5] s")
    case (Aborted err s')
    then show ?thesis using st by simp
  next
    case (Finished s')
    then show ?thesis using st Cons.IH [of s'] bests_le_trans by auto
  qed
qed

lemma epochs_loop_append:
  "epochs_loop ev a (xs @ ys) s =
     (case epochs_loop ev a xs s of
        Aborted err s' \<Rightarrow> Aborted err s'
      | Finished s' \<Rightarrow> epochs_loop ev a ys s')"
  by (induction xs arbitrary: s) (auto split: outcome.splits)

lemma init_ok: "bests_ok init_state"
  by (simp add: bests_ok_def init_state_def)

lemma run_epochs_mono:
  assumes "n \<le> m"
  shows "bests_le (final_state (run_epochs ev a n)) (final_state (run_epochs ev a m))"
proof (cases "batch_size a \<le> 0 \<or> valid_batch_size a \<le> 0")
  case True
  then show ?thesis by (simp add: run_epochs_def bests_le_refl init_ok)
next
  case False
  have split: "[0..<m] = [0..<n] @ [n..<m]"
    using assms by (metis le_add_diff_inverse upt_add_eq_append zero_le)
  have okn: "bests_ok (final_state (epochs_loop ev a [0..<n] init_state))"
    using epochs_loop_mono [OF init_ok] by blast
  show ?thesis
  proof (cases "epochs_loop ev a [0..<n] init_state")
    case (Aborted err s')
    then show ?thesis using False okn
      by (simp add: run_epochs_def split epochs_loop_append bests_le_refl)
  next
    case (Finished s')
    then show ?thesis using False okn epochs_loop_mono [of s' ev a "[n..<m]"]
      by (simp add: run_epochs_def split epochs_loop_append)
  qed
qed

lemma run_epochs_0: "final_state (run_epochs ev a 0) = init_state"
  by (simp add: run_epochs_def)

text \<open>
  C2. For every slot, the best validation accuracy and the best F1 after \<open>n\<close> epochs
  of a run are at most those after \<open>m \<ge> n\<close> epochs, and the best validation loss
  after \<open>m\<close> epochs is at most the one after \<open>n\<close>, whatever the training and
  validation passes produce (the state of a run that aborts is the one at the abort).
  Before the first epoch they are 0, 0 and plus infinity. The comparison is the one
  of floats, so none of the values is ever NaN.
\<close>

theorem best_values_monotone:
  "i < 5 \<Longrightarrow> n \<le> m \<Longrightarrow>
   fle (best_val_accs (final_state (run_epochs ev a n)) ! i)
       (best_val_accs (final_state (run_epochs ev a m)) ! i)
   \<and> fle (best_f1_scores (final_state (run_epochs ev a n)) ! i)
         (best_f1_scores (final_state (run_epochs ev a m)) ! i)
   \<and> fle (best_val_losses (final_state (run_epochs ev a m)) ! i)
         (best_val_losses (final_state (run_epochs ev a n)) ! i)
   \<and> best_val_accs (final_state (run_epochs ev a 0)) ! i = Fin 0
   \<and> best_f1_scores (final_state (run_epochs ev a 0)) ! i = Fin 0
   \<and> best_val_losses (final_state (run_epochs ev a 0)) ! i = PInf"
  using run_epochs_mono [of n m ev a]
  by (simp add: bests_le_def run_epochs_0 init_state_fields)

theorem best_values_monotone_witness:
  "(0::nat) < 5 \<and> (1::nat) \<le> 2
   \<and> fle (best_val_losses (final_state (run_epochs (demo_env (\<lambda>e i. False)) demo_args 2)) ! 0)
         (best_val_losses (final_state (run_epochs (demo_env (\<lambda>e i. False)) demo_args 1)) ! 0)
   \<and> best_val_losses (final_state (run_epochs (demo_env (\<lambda>e i. False)) demo_args 1)) ! 0 = Fin 2
   \<and> best_val_losses (final_state (run_epochs (demo_env (\<lambda>e i. False)) demo_args 2)) ! 0 = Fin 1"
proof -
  have mono: "fle (best_val_losses (final_state (run_epochs (demo_env (\<lambda>e i. False)) demo_args 2)) ! 0)
         (best_val_losses (final_state (run_epochs (demo_env (\<lambda>e i. False)) demo_args 1)) ! 0)"
    using best_values_monotone [of 0 1 2 "demo_env (\<lambda>e i. False)" demo_args] by simp
  have v1: "best_val_losses (final_state (run_epochs (demo_env (\<lambda>e i. False)) demo_args 1)) ! 0 = Fin 2"
    by code_simp
  have v2: "best_val_losses (final_state (run_epochs (demo_env (\<lambda>e i. False)) demo_args 2)) ! 0 = Fin 1"
    by code_simp
  have h: "(0::nat) < 5 \<and> (1::nat) \<le> 2" by simp
  show ?thesis by (rule conjI [OF conjunct1 [OF h] conjI [OF conjunct2 [OF h] conjI [OF mono conjI [OF v1 v2]]]])
qed

section \<open>The order of the slot steps\<close>

lemma checkpoint_events_flag:
  "\<exists>w. events (checkpoint e i f1 s) = events s @ (if w then [SaveBest e i] else []) @ [SaveLast e i]"
  by (rule exI [of _ "fgt f1 (best_f1_scores s ! i)"]) (simp add: checkpoint_def Let_def)

lemma track_best_events [simp]: "events (track_best i r s) = events s"
  by (simp add: track_best_def Let_def)

lemma log_validation_events [simp]: "events (log_validation e r s) = events s"
  by (simp add: log_validation_def)

lemma slot_step_events:
  "slot_step ev a e i s = Continue s' \<Longrightarrow> \<exists>w. events s' = events s @ slot_events e i (w, False)"
  "slot_step ev a e i s = Break s' \<Longrightarrow> \<exists>w. events s' = events s @ slot_events e i (w, True)"
proof -
  have main: "(\<exists>err s1. slot_step ev a e i s = Raise err s1)
      \<or> (\<exists>w. slot_step ev a e i s = Continue (ctl_state (slot_step ev a e i s))
            \<and> events (ctl_state (slot_step ev a e i s)) = events s @ slot_events e i (w, False))
      \<or> (\<exists>w. slot_step ev a e i s = Break (ctl_state (slot_step ev a e i s))
            \<and> events (ctl_state (slot_step ev a e i s)) = events s @ slot_events e i (w, True))"
  proof (cases "train_epoch a e (train_samples ev e i) (train_losses ev e i)")
    case (Inl err)
    then show ?thesis by (simp add: slot_step_def Let_def)
  next
    case (Inr tr)
    note tr = this
    show ?thesis
    proof (cases "validate_epoch a (val_samples ev e i) (val_losses ev e i) (random_draws ev e i)")
      case (Inl err)
      then show ?thesis using tr by (simp add: slot_step_def Let_def)
    next
      case (Inr vr)
      define s2 where "s2 = track_best i vr (s\<lparr>events := events s @ [TrainCall e i],
        logger := logger s @ train_scalars tr,
        events := events s @ [TrainCall e i] @ [ValidateCall e i]\<rparr>)"
      obtain w where w: "events (checkpoint e i (val_f1 vr) s2) =
          events s2 @ (if w then [SaveBest e i] else []) @ [SaveLast e i]"
        using checkpoint_events_flag by blast
      have e2: "events s2 = events s @ [TrainCall e i, ValidateCall e i]"
        by (simp add: s2_def)
      show ?thesis
      proof (cases "early_stopping ev e i (val_loss vr)")
        case True
        then show ?thesis using tr Inr w e2
          by (auto simp: slot_step_def Let_def slot_events_def s2_def)
      next
        case False
        then show ?thesis using tr Inr w e2
          by (auto simp: slot_step_def Let_def slot_events_def s2_def)
      qed
    qed
  qed
  show "slot_step ev a e i s = Continue s' \<Longrightarrow> \<exists>w. events s' = events s @ slot_events e i (w, False)"
    using main by auto
  show "slot_step ev a e i s = Break s' \<Longrightarrow> \<exists>w. events s' = events s @ slot_events e i (w, True)"
    using main by auto
qed

lemma slots_loop_events:
  "slots_loop ev a e is s = Finished s' \<Longrightarrow>
   \<exists>fl. events s' = events s @ concat (map (\<lambda>(i, flags). slot_events e i flags) (zip is fl))
      \<and> length fl \<le> length is \<and> (length fl = length is \<or> (\<exists>p\<in>set fl. snd p))"
proof (induction "is" arbitrary: s)
  case Nil
  then show ?case by simp
next
  case (Cons i rest)
  show ?case
  proof (cases "slot_step ev a e i s")
    case (Raise err s1)
    then show ?thesis using Cons.prems by simp
  next
    case (Break s1)
    then have "s1 = s'" using Cons.prems by simp
    then obtain w where "events s' = events s @ slot_events e i (w, True)"
      using slot_step_events(2) Break by blast
    then show ?thesis
      by (intro exI [of _ "[(w, True)]"]) simp
  next
    case (Continue s1)
    then have "slots_loop ev a e rest s1 = Finished s'" using Cons.prems by simp
    from Cons.IH [OF this] obtain fl where
      fl: "events s' = events s1 @ concat (map (\<lambda>(i, flags). slot_events e i flags) (zip rest fl))"
        "length fl \<le> length rest" "length fl = length rest \<or> (\<exists>p\<in>set fl. snd p)"
      by blast
    obtain w where w: "events s1 = events s @ slot_events e i (w, False)"
      using slot_step_events(1) Continue by blast
    show ?thesis
      using fl w by (intro exI [of _ "(w, False) # fl"]) auto
  qed
qed

lemma zip_upt_enumerate: "length fl \<le> n \<Longrightarrow> zip [j..<j + n] fl = enumerate j fl"
proof (induction fl arbitrary: j n)
  case Nil
  then show ?case by simp
next
  case (Cons x xs)
  then obtain n' where n: "n = Suc n'" by (cases n) auto
  have "[j..<j + n] = j # [Suc j..<Suc j + n']" using n by (simp add: upt_rec)
  then show ?case using Cons.IH [of n' "Suc j"] Cons.prems n by simp
qed

lemma epochs_loop_events:
  "epochs_loop ev a es s = Finished s' \<Longrightarrow>
   \<exists>fls. events s' = events s @ concat (map (\<lambda>(e, fl). epoch_events e fl) (zip es fls))
      \<and> length fls = length es
      \<and> (\<forall>fl\<in>set fls. length fl \<le> 5 \<and> (length fl = 5 \<or> (\<exists>p\<in>set fl. snd p)))"
proof (induction es arbitrary: s)
  case Nil
  then show ?case by simp
next
  case (Cons e rest)
  show ?case
  proof (cases "slots_loop ev a e [0..<5] s")
    case (Aborted err s1)
    then show ?thesis using Cons.prems by simp
  next
    case (Finished s1)
    then have "epochs_loop ev a rest s1 = Finished s'" using Cons.prems by simp
    from Cons.IH [OF this] obtain fls where
      fls: "events s' = events s1 @ concat (map (\<lambda>(e, fl). epoch_events e fl) (zip rest fls))"
        "length fls = length rest"
        "\<forall>fl\<in>set fls. length fl \<le> 5 \<and> (length fl = 5 \<or> (\<exists>p\<in>set fl. snd p))"
      by blast
    from slots_loop_events [OF Finished] obtain fl where
      fl: "events s1 = events s @ concat (map (\<lambda>(i, flags). slot_events e i flags) (zip [0..<5] fl))"
        "length fl \<le> 5" "length fl = 5 \<or> (\<exists>p\<in>set fl. snd p)"
      by auto
    have "zip [0..<5] fl = enumerate 0 fl"
      using zip_upt_enumerate [of fl 5 0] fl(2) by simp
    then have "events s1 = events s @ epoch_events e fl"
      using fl(1) by (simp add: epoch_events_def)
    then show ?thesis
      using fls fl by (intro exI [of _ "fl # fls"]) auto
  qed
qed

lemma slot_step_events_raise:
  "slot_step ev a e i s = Raise err s' \<Longrightarrow>
   \<exists>tail. events s' @ tail = events s @ slot_events e i (False, True)"
proof (cases "train_epoch a e (train_samples ev e i) (train_losses ev e i)")
  case (Inl err1)
  assume "slot_step ev a e i s = Raise err s'"
  then have "events s' = events s @ [TrainCall e i]"
    using Inl by (auto simp: slot_step_def Let_def)
  then show ?thesis
    by (intro exI [of _ "[ValidateCall e i, SaveLast e i, EarlyStopCheck e i True]"])
       (simp add: slot_events_def)
next
  case (Inr tr)
  assume r: "slot_step ev a e i s = Raise err s'"
  show ?thesis
  proof (cases "validate_epoch a (val_samples ev e i) (val_losses ev e i) (random_draws ev e i)")
    case (Inl err2)
    then have "events s' = events s @ [TrainCall e i, ValidateCall e i]"
      using Inr r by (auto simp: slot_step_def Let_def)
    then show ?thesis
      by (intro exI [of _ "[SaveLast e i, EarlyStopCheck e i True]"])
         (simp add: slot_events_def)
  next
    case (Inr vr)
    then show ?thesis using \<open>train_epoch a e (train_samples ev e i) (train_losses ev e i) = Inr tr\<close> r
      by (simp add: slot_step_def Let_def split: if_splits)
  qed
qed

lemma slots_loop_events_aborted:
  "slots_loop ev a e is s = Aborted err s' \<Longrightarrow>
   \<exists>fl tail. events s' @ tail =
        events s @ concat (map (\<lambda>(i, flags). slot_events e i flags) (zip is fl))
      \<and> length fl \<le> length is \<and> (\<exists>p\<in>set fl. snd p)"
proof (induction "is" arbitrary: s)
  case Nil
  then show ?case by simp
next
  case (Cons i rest)
  show ?case
  proof (cases "slot_step ev a e i s")
    case (Raise err1 s1)
    then have "slot_step ev a e i s = Raise err s'" using Cons.prems by simp
    from slot_step_events_raise [OF this] obtain tail where
      "events s' @ tail = events s @ slot_events e i (False, True)" by blast
    then show ?thesis
      by (intro exI [of _ "[(False, True)]"] exI [of _ tail]) simp
  next
    case (Break s1)
    then show ?thesis using Cons.prems by simp
  next
    case (Continue s1)
    then have "slots_loop ev a e rest s1 = Aborted err s'" using Cons.prems by simp
    from Cons.IH [OF this] obtain fl tail where
      fl: "events s' @ tail =
             events s1 @ concat (map (\<lambda>(i, flags). slot_events e i flags) (zip rest fl))"
        "length fl \<le> length rest" "\<exists>p\<in>set fl. snd p"
      by blast
    obtain w where w: "events s1 = events s @ slot_events e i (w, False)"
      using slot_step_events(1) Continue by blast
    show ?thesis
      using fl w by (intro exI [of _ "(w, False) # fl"] exI [of _ tail]) auto
  qed
qed

lemma epochs_loop_events_aborted:
  "epochs_loop ev a es s = Aborted err s' \<Longrightarrow>
   \<exists>fls tail. events s' @ tail =
        events s @ concat (map (\<lambda>(e, fl). epoch_events e fl) (zip es fls))
      \<and> length fls \<le> length es
      \<and> (\<forall>fl\<in>set fls. length fl \<le> 5 \<and> (length fl = 5 \<or> (\<exists>p\<in>set fl. snd p)))"
proof (induction es arbitrary: s)
  case Nil
  then show ?case by simp
next
  case (Cons e rest)
  show ?case
  proof (cases "slots_loop ev a e [0..<5] s")
    case (Aborted err1 s1)
    then have "slots_loop ev a e [0..<5] s = Aborted err s'" using Cons.prems by simp
    from slots_loop_events_aborted [OF this] obtain fl tail where
      fl: "events s' @ tail =
             events s @ concat (map (\<lambda>(i, flags). slot_events e i flags) (zip [0..<5] fl))"
        "length fl \<le> 5" "\<exists>p\<in>set fl. snd p"
      by auto
    have "zip [0..<5] fl = enumerate 0 fl"
      using zip_upt_enumerate [of fl 5 0] fl(2) by simp
    then have "events s' @ tail = events s @ epoch_events e fl"
      using fl(1) by (simp add: epoch_events_def)
    then show ?thesis
      using fl by (intro exI [of _ "[fl]"] exI [of _ tail]) auto
  next
    case (Finished s1)
    then have "epochs_loop ev a rest s1 = Aborted err s'" using Cons.prems by simp
    from Cons.IH [OF this] obtain fls tail where
      fls: "events s' @ tail =
              events s1 @ concat (map (\<lambda>(e, fl). epoch_events e fl) (zip rest fls))"
        "length fls \<le> length rest"
        "\<forall>fl\<in>set fls. length fl \<le> 5 \<and> (length fl = 5 \<or> (\<exists>p\<in>set fl. snd p))"
      by blast
    from slots_loop_events [OF Finished] obtain fl where
      fl: "events s1 = events s @ concat (map (\<lambda>(i, flags). slot_events e i flags) (zip [0..<5] fl))"
        "length fl \<le> 5" "length fl = 5 \<or> (\<exists>p\<in>set fl. snd p)"
      by auto
    have "zip [0..<5] fl = enumerate 0 fl"
      using zip_upt_enumerate [of fl 5 0] fl(2) by simp
    then have "events s1 = events s @ epoch_events e fl"
      using fl(1) by (simp add: epoch_events_def)
    then show ?thesis
      using fls fl by (intro exI [of _ "fl # fls"] exI [of _ tail]) auto
  qed
qed

lemma train_finished_events:
  assumes run: "train ev a = Finished s"
  shows "\<exists>fls. events s = run_events fls \<and> length fls = nat (epochs a)
      \<and> (\<forall>fl\<in>set fls. length fl \<le> 5 \<and> (length fl = 5 \<or> (\<exists>p\<in>set fl. snd p)))"
proof -
  from run have "epochs_loop ev a [0..<nat (epochs a)] init_state = Finished s"
    by (simp add: train_def run_epochs_def split: if_splits)
  from epochs_loop_events [OF this] obtain fls where
    fls: "events s = concat (map (\<lambda>(e, fl). epoch_events e fl) (zip [0..<nat (epochs a)] fls))"
      "length fls = nat (epochs a)"
      "\<forall>fl\<in>set fls. length fl \<le> 5 \<and> (length fl = 5 \<or> (\<exists>p\<in>set fl. snd p))"
    by (auto simp: init_state_def)
  have "zip [0..<nat (epochs a)] fls = enumerate 0 fls"
    using zip_upt_enumerate [of fls "nat (epochs a)" 0] fls(2) by simp
  then show ?thesis using fls by (auto simp: run_events_def)
qed

lemma train_aborted_events:
  assumes run: "train ev a = Aborted err s"
  shows "\<exists>fls tail. events s @ tail = run_events fls \<and> length fls \<le> nat (epochs a)
      \<and> (\<forall>fl\<in>set fls. length fl \<le> 5 \<and> (length fl = 5 \<or> (\<exists>p\<in>set fl. snd p)))"
proof (cases "batch_size a \<le> 0 \<or> valid_batch_size a \<le> 0")
  case True
  then have "events s = []" using run by (auto simp: train_def run_epochs_def init_state_def)
  then show ?thesis
    by (intro exI [of _ "[]"]) (simp add: run_events_def)
next
  case False
  then have "epochs_loop ev a [0..<nat (epochs a)] init_state = Aborted err s"
    using run by (simp add: train_def run_epochs_def)
  from epochs_loop_events_aborted [OF this] obtain fls tail where
    fls: "events s @ tail =
            concat (map (\<lambda>(e, fl). epoch_events e fl) (zip [0..<nat (epochs a)] fls))"
      "length fls \<le> nat (epochs a)"
      "\<forall>fl\<in>set fls. length fl \<le> 5 \<and> (length fl = 5 \<or> (\<exists>p\<in>set fl. snd p))"
    by (auto simp: init_state_def)
  have "zip [0..<nat (epochs a)] fls = enumerate 0 fls"
    using zip_upt_enumerate [of fls "nat (epochs a)" 0] fls(2) by simp
  then show ?thesis using fls by (auto simp: run_events_def)
qed

text \<open>
  The shape of every trace. The events of a run that finishes are those of its epochs
  in increasing order, each epoch visiting the slots in the order 0, 1, 2, ... and each
  slot step being: training pass, validation pass, checkpoint ("best" if written, then
  "last"), early-stop check. An epoch in which no early-stop check answers true
  comprises all five slots. The events of a run that aborts are an initial segment of
  such a sequence.
\<close>

theorem epoch_order:
  "(train ev a = Finished s \<longrightarrow>
      (\<exists>fls. events s = run_events fls \<and> length fls = nat (epochs a)
         \<and> (\<forall>fl\<in>set fls. length fl \<le> 5 \<and> (length fl = 5 \<or> (\<exists>p\<in>set fl. snd p)))))
   \<and> (train ev a = Aborted err s \<longrightarrow>
      (\<exists>fls tail. events s @ tail = run_events fls \<and> length fls \<le> nat (epochs a)
         \<and> (\<forall>fl\<in>set fls. length fl \<le> 5 \<and> (length fl = 5 \<or> (\<exists>p\<in>set fl. snd p)))))"
  using train_finished_events [of ev a s] train_aborted_events [of ev a err s] by blast

theorem epoch_order_witness:
  "train (demo_env (\<lambda>e i. False)) demo_args =
     Finished (final_state (train (demo_env (\<lambda>e i. False)) demo_args))
   \<and> (\<exists>fls. events (final_state (train (demo_env (\<lambda>e i. False)) demo_args)) = run_events fls
         \<and> length fls = nat (epochs demo_args)
         \<and> (\<forall>fl\<in>set fls. length fl \<le> 5 \<and> (length fl = 5 \<or> (\<exists>p\<in>set fl. snd p))))
   \<and> events (final_state (train (demo_env (\<lambda>e i. False)) demo_args)) =
       run_events [replicate 5 (True, False), replicate 5 (True, False)]
   \<and> train (demo_env (\<lambda>e i. False)) (demo_args\<lparr>valid_batch_size := 4\<rparr>) =
       Aborted AssertionError
         (final_state (train (demo_env (\<lambda>e i. False)) (demo_args\<lparr>valid_batch_size := 4\<rparr>)))
   \<and> (\<exists>fls tail.
         events (final_state (train (demo_env (\<lambda>e i. False)) (demo_args\<lparr>valid_batch_size := 4\<rparr>)))
           @ tail = run_events fls
         \<and> length fls \<le> nat (epochs (demo_args\<lparr>valid_batch_size := 4\<rparr>))
         \<and> (\<forall>fl\<in>set fls. length fl \<le> 5 \<and> (length fl = 5 \<or> (\<exists>p\<in>set fl. snd p))))"
proof -
  have fin: "train (demo_env (\<lambda>e i. False)) demo_args =
     Finished (final_state (train (demo_env (\<lambda>e i. False)) demo_args))"
    by code_simp
  have c1: "\<exists>fls. events (final_state (train (demo_env (\<lambda>e i. False)) demo_args)) = run_events fls
         \<and> length fls = nat (epochs demo_args)
         \<and> (\<forall>fl\<in>set fls. length fl \<le> 5 \<and> (length fl = 5 \<or> (\<exists>p\<in>set fl. snd p)))"
    using epoch_order [of "demo_env (\<lambda>e i. False)" demo_args
        "final_state (train (demo_env (\<lambda>e i. False)) demo_args)"] fin
    by blast
  have tr: "events (final_state (train (demo_env (\<lambda>e i. False)) demo_args)) =
       run_events [replicate 5 (True, False), replicate 5 (True, False)]"
    by code_simp
  have ab: "train (demo_env (\<lambda>e i. False)) (demo_args\<lparr>valid_batch_size := 4\<rparr>) =
       Aborted AssertionError
         (final_state (train (demo_env (\<lambda>e i. False)) (demo_args\<lparr>valid_batch_size := 4\<rparr>)))"
    by code_simp
  have c2: "\<exists>fls tail.
         events (final_state (train (demo_env (\<lambda>e i. False)) (demo_args\<lparr>valid_batch_size := 4\<rparr>)))
           @ tail = run_events fls
         \<and> length fls \<le> nat (epochs (demo_args\<lparr>valid_batch_size := 4\<rparr>))
         \<and> (\<forall>fl\<in>set fls. length fl \<le> 5 \<and> (length fl = 5 \<or> (\<exists>p\<in>set fl. snd p)))"
    using epoch_order [of "demo_env (\<lambda>e i. False)" "demo_args\<lparr>valid_batch_size := 4\<rparr>"
        "final_state (train (demo_env (\<lambda>e i. False)) (demo_args\<lparr>valid_batch_size := 4\<rparr>))"
        AssertionError] ab
    by blast
  show ?thesis by (intro conjI fin c1 tr ab c2)
qed

text \<open>
  C4 on the code. In the small run, the early-stop check of slot 2 answers true in the
  first epoch. The run finishes, the second epoch starts (slot 0 is trained in it), and
  the slots 3 and 4 were never trained in the first epoch: the epoch counter advances
  after three of the five slot steps.
\<close>

theorem early_stop_ends_epoch:
  "train (demo_env (\<lambda>e i. e = 0 \<and> i = 2)) demo_args =
     Finished (final_state (train (demo_env (\<lambda>e i. e = 0 \<and> i = 2)) demo_args))
   \<and> TrainCall 1 0 \<in> set (events (final_state (train (demo_env (\<lambda>e i. e = 0 \<and> i = 2)) demo_args)))
   \<and> TrainCall 0 3 \<notin> set (events (final_state (train (demo_env (\<lambda>e i. e = 0 \<and> i = 2)) demo_args)))
   \<and> TrainCall 0 4 \<notin> set (events (final_state (train (demo_env (\<lambda>e i. e = 0 \<and> i = 2)) demo_args)))"
  by code_simp

section \<open>Early stopping\<close>

text \<open>
  C3 on the code. In the small run, the monitor of slot 2 answers true in the first
  epoch and nothing else does. The \<^verbatim>\<open>break\<close> of line 343 leaves the loop over the
  slots: the slots 3 and 4 are skipped in that epoch, and the second epoch trains and
  validates all five slots again, slot 2 included.
\<close>

theorem early_stop_break_trace:
  "events (final_state (train (demo_env (\<lambda>e i. e = 0 \<and> i = 2)) demo_args)) =
     [TrainCall 0 0, ValidateCall 0 0, SaveBest 0 0, SaveLast 0 0, EarlyStopCheck 0 0 False,
      TrainCall 0 1, ValidateCall 0 1, SaveBest 0 1, SaveLast 0 1, EarlyStopCheck 0 1 False,
      TrainCall 0 2, ValidateCall 0 2, SaveBest 0 2, SaveLast 0 2, EarlyStopCheck 0 2 True,
      TrainCall 1 0, ValidateCall 1 0, SaveBest 1 0, SaveLast 1 0, EarlyStopCheck 1 0 False,
      TrainCall 1 1, ValidateCall 1 1, SaveBest 1 1, SaveLast 1 1, EarlyStopCheck 1 1 False,
      TrainCall 1 2, ValidateCall 1 2, SaveBest 1 2, SaveLast 1 2, EarlyStopCheck 1 2 False,
      TrainCall 1 3, ValidateCall 1 3, SaveBest 1 3, SaveLast 1 3, EarlyStopCheck 1 3 False,
      TrainCall 1 4, ValidateCall 1 4, SaveBest 1 4, SaveLast 1 4, EarlyStopCheck 1 4 False]"
  by code_simp


section \<open>The batches and the two passes\<close>

lemma drop_last_batches_length: "length (drop_last_batches bs xs) = length xs div bs"
proof (induction bs xs rule: drop_last_batches.induct)
  case (1 bs xs)
  show ?case
  proof (cases "bs = 0 \<or> length xs < bs")
    case True
    then show ?thesis by (auto simp: drop_last_batches.simps [of bs xs])
  next
    case False
    then have "length (drop_last_batches bs (drop bs xs)) = (length xs - bs) div bs"
      using "1.IH" by simp
    moreover have "Suc ((length xs - bs) div bs) = length xs div bs"
      using False by (simp add: le_div_geq)
    ultimately show ?thesis using False by (simp add: drop_last_batches.simps [of bs xs])
  qed
qed

lemma drop_last_batches_full: "b \<in> set (drop_last_batches bs xs) \<Longrightarrow> length b = bs"
proof (induction bs xs rule: drop_last_batches.induct)
  case (1 bs xs)
  then show ?case
    by (cases "bs = 0 \<or> length xs < bs") (auto simp: drop_last_batches.simps [of bs xs])
qed

lemma drop_last_batches_concat:
  "concat (drop_last_batches bs xs) = take (bs * (length xs div bs)) xs"
proof (induction bs xs rule: drop_last_batches.induct)
  case (1 bs xs)
  show ?case
  proof (cases "bs = 0 \<or> length xs < bs")
    case True
    then show ?thesis by (auto simp: drop_last_batches.simps [of bs xs])
  next
    case False
    then have ih: "concat (drop_last_batches bs (drop bs xs)) =
        take (bs * ((length xs - bs) div bs)) (drop bs xs)"
      using "1.IH" by simp
    have d: "length xs div bs = Suc ((length xs - bs) div bs)"
      using False by (simp add: le_div_geq)
    have "take (bs * Suc ((length xs - bs) div bs)) xs =
        take bs xs @ take (bs * ((length xs - bs) div bs)) (drop bs xs)"
      by (simp add: take_add)
    then show ?thesis using False ih d by (simp add: drop_last_batches.simps [of bs xs])
  qed
qed

lemma train_loop_snoc:
  "train_loop a e nb losses (xs @ [x]) st =
     (case train_loop a e nb losses xs st of
        Inl err \<Rightarrow> Inl err
      | Inr st' \<Rightarrow> train_batch a e nb losses x st')"
  by (induction xs arbitrary: st) (auto split: sum.splits)

lemma mod_int_nat: "0 < L \<Longrightarrow> ((int k + 1) mod L = 0) = (Suc k mod nat L = 0)"
proof -
  assume L: "0 < L"
  have "int (Suc k mod nat L) = (int k + 1) mod L"
    using L by (simp add: zmod_int add.commute)
  then show ?thesis by (metis int_eq_iff_numeral of_nat_eq_0_iff of_nat_0)
qed

lemma window_flush:
  assumes N: "0 < N" and m: "Suc k mod N = 0"
  shows "Suc k div N = Suc (k div N)" "k div N * N + N = Suc k" "Suc k div N * N = Suc k"
proof -
  show d: "Suc k div N = Suc (k div N)" using m by (simp add: div_Suc)
  have "Suc k div N * N = Suc k" using m by (metis add.right_neutral div_mult_mod_eq)
  then show "Suc k div N * N = Suc k" .
  then show "k div N * N + N = Suc k" using d by simp
qed

lemma window_keep:
  assumes m: "Suc k mod N \<noteq> 0"
  shows "Suc k div N = k div N" "k div N * N \<le> k"
  using m by (simp_all add: div_Suc)

lemma train_batch_prefix:
  assumes L: "0 < log_interval a" and k: "k < length loader"
  shows "train_batch a e nb losses (k, loader ! k) (train_prefix_state a e nb losses loader k) =
     Inr (train_prefix_state a e nb losses loader (Suc k))"
proof -
  define N where "N = nat (log_interval a)"
  have N: "0 < N" using L by (simp add: N_def)
  have tk: "take (Suc k) loader = take k loader @ [loader ! k]"
    using k by (simp add: take_Suc_conv_app_nth)
  have le: "k div N * N \<le> k" by simp
  show ?thesis
  proof (cases "Suc k mod N = 0")
    case True
    have f: "(int k + 1) mod log_interval a = 0"
      using True mod_int_nat [OF L, of k] by (simp add: N_def)
    have w: "Suc k div N = Suc (k div N)" "k div N * N + N = Suc k" "Suc k div N * N = Suc k"
      using window_flush [OF N True] by simp_all
    have step: "k div N * N + N - 1 = k" using w(2) by simp
    show ?thesis
      using L f w step le tk
      by (simp add: train_batch_def train_prefix_state_def Let_def N_def [symmetric]
          window_scalars_def)
  next
    case False
    have f: "(int k + 1) mod log_interval a \<noteq> 0"
      using False mod_int_nat [OF L, of k] by (simp add: N_def)
    have w: "Suc k div N = k div N" using window_keep [OF False] by simp
    show ?thesis
      using L f w le tk
      by (simp add: train_batch_def train_prefix_state_def Let_def N_def [symmetric])
  qed
qed

lemma train_loop_prefix:
  assumes L: "0 < log_interval a"
  shows "k \<le> length loader \<Longrightarrow>
     train_loop a e nb losses (enumerate 0 (take k loader)) train_init =
       Inr (train_prefix_state a e nb losses loader k)"
proof (induction k)
  case 0
  then show ?case by (simp add: train_prefix_state_def train_init_def)
next
  case (Suc k)
  then have k: "k < length loader" by simp
  have tk: "take (Suc k) loader = take k loader @ [loader ! k]"
    using k by (simp add: take_Suc_conv_app_nth)
  have en: "enumerate 0 (take (Suc k) loader) = enumerate 0 (take k loader) @ [(k, loader ! k)]"
    using k by (simp add: tk enumerate_append_eq)
  show ?case
    using Suc.IH k train_batch_prefix [OF L k, of e nb losses]
    by (simp add: en train_loop_snoc)
qed

lemma batch_matches_append [simp]:
  "batch_matches (xs @ ys) = batch_matches xs + batch_matches ys"
  by (simp add: batch_matches_def)

lemma batch_matches_Nil [simp]: "batch_matches [] = 0"
  by (simp add: batch_matches_def)

lemma batch_matches_concat: "sum_list (map batch_matches bs) = batch_matches (concat bs)"
  by (induction bs) simp_all

lemma train_batch_acc:
  "train_batch a e nb losses (idx, b) st = Inr st' \<Longrightarrow>
   y_true st' = y_true st @ map fst b \<and> y_pred st' = y_pred st @ map snd b
   \<and> matches st' = matches st + batch_matches b
   \<and> loss_value st' = loss_value st + losses idx"
  by (auto simp: train_batch_def Let_def split: if_splits)

lemma train_loop_acc:
  "train_loop a e nb losses ibs st = Inr st' \<Longrightarrow>
   y_true st' = y_true st @ map fst (concat (map snd ibs))
   \<and> y_pred st' = y_pred st @ map snd (concat (map snd ibs))
   \<and> matches st' = matches st + batch_matches (concat (map snd ibs))
   \<and> loss_value st' = loss_value st + sum_list (map losses (map fst ibs))"
proof (induction ibs arbitrary: st)
  case Nil
  then show ?case by simp
next
  case (Cons ib rest)
  obtain idx b where ib: "ib = (idx, b)" by (cases ib)
  from Cons.prems obtain st1 where
    st1: "train_batch a e nb losses (idx, b) st = Inr st1"
      "train_loop a e nb losses rest st1 = Inr st'"
    by (auto simp: ib split: sum.splits)
  show ?case
    using train_batch_acc [OF st1(1)] Cons.IH [OF st1(2)] by (simp add: ib)
qed

lemma map_snd_enumerate [simp]: "map snd (enumerate n xs) = xs"
  by (simp add: enumerate_eq_zip)

lemma f1_score_Inr:
  "length ys = length ps \<Longrightarrow> \<exists>f. f1_score ys ps = Inr f"
  by (simp add: f1_score_def Let_def)

lemma train_epoch_Inr:
  assumes "train_epoch a e samples losses = Inr r"
  shows "0 < length samples div nat (batch_size a)"
    and "train_acc r = real (batch_matches (take (nat (batch_size a) * (length samples div nat (batch_size a))) samples))
            / real (nat (batch_size a) * (length samples div nat (batch_size a)))"
    and "train_loss r = sum_list (map losses [0..<length samples div nat (batch_size a)])
            / real (length samples div nat (batch_size a))"
    and "Inr (train_f1 r) =
           f1_score (map snd (take (nat (batch_size a) * (length samples div nat (batch_size a))) samples))
                    (map fst (take (nat (batch_size a) * (length samples div nat (batch_size a))) samples))"
proof -
  define bs where "bs = nat (batch_size a)"
  define loader where "loader = drop_last_batches bs samples"
  define nb where "nb = length samples div bs"
  have len: "length loader = nb" by (simp add: loader_def nb_def drop_last_batches_length)
  have cc: "concat loader = take (bs * nb) samples"
    by (simp add: loader_def nb_def drop_last_batches_concat)
  from assms obtain st where
    st: "train_loop a e nb losses (enumerate 0 loader) train_init = Inr st"
    and nz: "nb \<noteq> 0"
    and f1: "f1_score (y_pred st) (y_true st) = Inr (train_f1 r)"
    and acc: "train_acc r = real (matches st) / real_of_int (batch_size a * int nb)"
    and loss: "train_loss r = loss_value st / real nb"
    by (auto simp: train_epoch_def Let_def bs_def [symmetric] loader_def [symmetric] len
        split: sum.splits if_splits)
  have bs: "batch_size a = int bs"
  proof -
    have "bs \<noteq> 0" using nz by (cases "bs = 0") (simp_all add: nb_def)
    then show ?thesis by (simp add: bs_def)
  qed
  from train_loop_acc [OF st]
  have a: "y_true st = map fst (concat loader)" "y_pred st = map snd (concat loader)"
    "matches st = batch_matches (concat loader)"
    "loss_value st = sum_list (map losses [0..<nb])"
    by (simp_all add: train_init_def len)
  show "0 < length samples div nat (batch_size a)"
    using nz by (simp add: nb_def bs_def)
  show "train_acc r = real (batch_matches (take (nat (batch_size a) * (length samples div nat (batch_size a))) samples))
            / real (nat (batch_size a) * (length samples div nat (batch_size a)))"
    using acc a(3) cc bs by (simp add: bs_def [symmetric] nb_def [symmetric])
  show "train_loss r = sum_list (map losses [0..<length samples div nat (batch_size a)])
            / real (length samples div nat (batch_size a))"
    using loss a(4) by (simp add: bs_def [symmetric] nb_def [symmetric])
  show "Inr (train_f1 r) =
           f1_score (map snd (take (nat (batch_size a) * (length samples div nat (batch_size a))) samples))
                    (map fst (take (nat (batch_size a) * (length samples div nat (batch_size a))) samples))"
    using f1 a(1,2) cc by (simp add: bs_def [symmetric] nb_def [symmetric])
qed

lemma tp_sum_swap: "tp_sum ys ps c = tp_sum ps ys c"
proof -
  have "zip ps ys = map (\<lambda>(x, y). (y, x)) (zip ys ps)" by (rule zip_commute)
  then have "filter (\<lambda>(t, p). t = c \<and> p = c) (zip ps ys) =
      map (\<lambda>(x, y). (y, x)) (filter (\<lambda>(t, p). t = c \<and> p = c) (zip ys ps))"
    by (simp add: filter_map o_def case_prod_unfold conj_commute)
  then show ?thesis by (simp add: tp_sum_def)
qed

lemma class_f1_swap: "class_f1 ys ps c = class_f1 ps ys c"
  by (simp add: class_f1_def Let_def tp_sum_swap [of ys ps c] add.commute mult.commute
      mult.left_commute)

lemma unique_labels_swap: "unique_labels ys ps = unique_labels ps ys"
proof -
  have "unique_labels ys ps = sorted_list_of_set (set (ys @ ps))"
    by (simp only: unique_labels_def sorted_list_of_set_sort_remdups)
  also have "set (ys @ ps) = set (ps @ ys)" by auto
  also have "sorted_list_of_set (set (ps @ ys)) = unique_labels ps ys"
    by (simp only: unique_labels_def sorted_list_of_set_sort_remdups)
  finally show ?thesis .
qed

lemma f1_score_swap: "f1_score ys ps = f1_score ps ys"
proof -
  have "class_f1 ys ps = class_f1 ps ys"
    by (rule ext) (rule class_f1_swap)
  then show ?thesis
    by (simp add: f1_score_def Let_def unique_labels_swap [of ys ps] eq_commute [of "length ys"])
qed

lemma val_batch_with_figure:
  "figure st \<noteq> None \<Longrightarrow>
   val_batch a losses draw (idx, b) st =
     Inr (st\<lparr>y_true := y_true st @ map fst b, y_pred := y_pred st @ map snd b,
             val_loss_items := val_loss_items st @ [losses idx],
             val_acc_items := val_acc_items st @ [batch_matches b]\<rparr>)"
proof -
  assume "figure st \<noteq> None"
  then obtain fig where "figure st = Some fig" by auto
  then show ?thesis by (simp add: val_batch_def Let_def)
qed

lemma val_loop_with_figure:
  "figure st \<noteq> None \<Longrightarrow>
   val_loop a losses draw ibs st =
     Inr (st\<lparr>y_true := y_true st @ map fst (concat (map snd ibs)),
             y_pred := y_pred st @ map snd (concat (map snd ibs)),
             val_loss_items := val_loss_items st @ map losses (map fst ibs),
             val_acc_items := val_acc_items st @ map batch_matches (map snd ibs)\<rparr>)"
proof (induction ibs arbitrary: st)
  case Nil
  then show ?case by simp
next
  case (Cons ib rest)
  obtain idx b where ib: "ib = (idx, b)" by (cases ib)
  define st1 where "st1 = st\<lparr>y_true := y_true st @ map fst b, y_pred := y_pred st @ map snd b,
             val_loss_items := val_loss_items st @ [losses idx],
             val_acc_items := val_acc_items st @ [batch_matches b]\<rparr>"
  have fig: "figure st1 \<noteq> None" using Cons.prems by (simp add: st1_def)
  have "val_batch a losses draw (idx, b) st = Inr st1"
    using val_batch_with_figure [OF Cons.prems] by (simp add: st1_def)
  then show ?case
    using Cons.IH [OF fig] by (simp add: ib st1_def)
qed

lemma val_loop_first:
  "val_loop a losses draw ((idx, b) # rest) val_init =
     (case grid_image b 16
             (if dataset a \<noteq> ''MaskSplitByProfileDataset'' then Some draw else None) of
        Inl err \<Rightarrow> Inl err
      | Inr fig \<Rightarrow>
          Inr \<lparr>y_true = map fst (concat (b # map snd rest)),
               y_pred = map snd (concat (b # map snd rest)),
               val_loss_items = map losses (idx # map fst rest),
               val_acc_items = map batch_matches (b # map snd rest),
               figure = Some fig\<rparr>)"
proof (cases "grid_image b 16 (if dataset a \<noteq> ''MaskSplitByProfileDataset'' then Some draw else None)")
  case (Inl err)
  then show ?thesis by (simp add: val_batch_def val_init_def Let_def)
next
  case (Inr fig)
  define st1 where "st1 = \<lparr>y_true = map fst b, y_pred = map snd b,
      val_loss_items = [losses idx], val_acc_items = [batch_matches b], figure = Some fig\<rparr>"
  have b: "val_batch a losses draw (idx, b) val_init = Inr st1"
    using Inr by (simp add: val_batch_def val_init_def Let_def st1_def)
  have fig: "figure st1 \<noteq> None" by (simp add: st1_def)
  show ?thesis
    using Inr b val_loop_with_figure [OF fig, of a losses draw rest]
    by (simp add: st1_def)
qed

lemma f1_score_Inr_case:
  "length ys = length ps \<Longrightarrow>
   f1_score ys ps = Inr (case f1_score ys ps of Inl err \<Rightarrow> NaN | Inr f1 \<Rightarrow> f1)"
  by (simp add: f1_score_def Let_def)

lemma valid_denominator:
  "real_of_int (vbs * int (length samples div nat vbs)) =
   real (nat vbs * (length samples div nat vbs))"
  by (cases "0 \<le> vbs") simp_all

lemma validate_epoch_cases:
  "validate_epoch a samples losses draw =
     (case drop_last_batches (nat (valid_batch_size a)) samples of
        [] \<Rightarrow> Inr (val_metrics a samples losses None)
      | b # rest \<Rightarrow>
          (case grid_image b 16
                  (if dataset a \<noteq> ''MaskSplitByProfileDataset'' then Some draw else None) of
             Inl err \<Rightarrow> Inl err
           | Inr fig \<Rightarrow> Inr (val_metrics a samples losses (Some fig))))"
proof -
  define bs where "bs = nat (valid_batch_size a)"
  define loader where "loader = drop_last_batches bs samples"
  define nb where "nb = length samples div bs"
  define seen where "seen = take (bs * nb) samples"
  have len: "length loader = nb" by (simp add: loader_def nb_def drop_last_batches_length)
  have cc: "concat loader = seen"
    by (simp add: loader_def nb_def seen_def drop_last_batches_concat)
  have f1: "f1_score (map snd seen) (map fst seen) =
      Inr (case f1_score (map fst seen) (map snd seen) of Inl err \<Rightarrow> NaN | Inr f1 \<Rightarrow> f1)"
    using f1_score_Inr_case [of "map fst seen" "map snd seen"]
    by (simp add: f1_score_swap [of "map snd seen"])
  have den: "real_of_int (valid_batch_size a * int nb) = real (bs * nb)"
    using valid_denominator [of "valid_batch_size a" samples] by (simp add: bs_def nb_def)
  show ?thesis
  proof (cases loader)
    case Nil
    then have nb0: "nb = 0" using len by simp
    then have s0: "seen = []" by (simp add: seen_def)
    have "f1_score [] [] = Inr NaN" by (simp add: f1_score_def unique_labels_def)
    then show ?thesis
      using Nil nb0 s0
      by (simp add: validate_epoch_def Let_def bs_def [symmetric] loader_def [symmetric]
          val_metrics_def nb_def [symmetric] val_init_def)
  next
    case (Cons b rest)
    have en: "enumerate 0 loader = (0, b) # enumerate (Suc 0) rest"
      by (simp add: Cons)
    have idx: "0 # map fst (enumerate (Suc 0) rest) = [0..<nb]"
      using len by (simp add: Cons upt_conv_Cons [of 0] del: upt_Suc)
    have cc': "concat (b # rest) = seen" using cc by (simp add: Cons)
    have sm: "sum_list (map batch_matches (b # rest)) = batch_matches seen"
      using batch_matches_concat [of "b # rest"] by (simp only: cc')
    show ?thesis
    proof (cases "grid_image b 16 (if dataset a \<noteq> ''MaskSplitByProfileDataset'' then Some draw else None)")
      case (Inl err)
      then show ?thesis
        using Cons
        by (simp add: validate_epoch_def Let_def bs_def [symmetric] loader_def [symmetric]
            en val_loop_first del: val_loop.simps)
    next
      case (Inr fig)
      have loop: "val_loop a losses draw ((0, b) # enumerate (Suc 0) rest) val_init =
          Inr \<lparr>y_true = map fst seen, y_pred = map snd seen,
               val_loss_items = map losses [0..<nb],
               val_acc_items = map batch_matches (b # rest),
               figure = Some fig\<rparr>"
        using Inr idx cc' by (simp add: val_loop_first del: val_loop.simps)
      show ?thesis
        using Cons Inr f1 den len sm
        by (simp add: validate_epoch_def Let_def bs_def [symmetric] loader_def [symmetric]
            en loop val_metrics_def nb_def [symmetric] seen_def [symmetric]
            del: val_loop.simps)
    qed
  qed
qed

lemma train_batch_error:
  "train_batch a e nb losses ib st = Inl err \<Longrightarrow> err = ZeroDivisionError \<and> log_interval a = 0"
  by (cases ib) (auto simp: train_batch_def Let_def split: if_splits)

lemma train_loop_error:
  "train_loop a e nb losses ibs st = Inl err \<Longrightarrow> err = ZeroDivisionError \<and> log_interval a = 0"
proof (induction ibs arbitrary: st)
  case Nil
  then show ?case by simp
next
  case (Cons ib rest)
  show ?case
  proof (cases "train_batch a e nb losses ib st")
    case (Inl err1)
    then show ?thesis using Cons.prems train_batch_error [OF Inl] by simp
  next
    case (Inr st1)
    then show ?thesis using Cons.prems Cons.IH [of st1] by simp
  qed
qed

lemma train_loop_lengths:
  assumes "train_loop a e nb losses ibs train_init = Inr st"
  shows "length (y_pred st) = length (y_true st)"
  using train_loop_acc [OF assms] by (simp add: train_init_def)

lemma train_epoch_error:
  assumes "train_epoch a e samples losses = Inl err"
  shows "err = ZeroDivisionError"
proof -
  define loader where "loader = drop_last_batches (nat (batch_size a)) samples"
  show ?thesis
  proof (cases "train_loop a e (length loader) losses (enumerate 0 loader) train_init")
    case (Inl err1)
    then show ?thesis
      using assms train_loop_error [OF Inl]
      by (simp add: train_epoch_def Let_def loader_def [symmetric])
  next
    case (Inr st)
    obtain f where "f1_score (y_pred st) (y_true st) = Inr f"
      using f1_score_Inr [OF train_loop_lengths [OF Inr]] by blast
    then show ?thesis
      using assms Inr
      by (simp add: train_epoch_def Let_def loader_def [symmetric] split: if_splits)
  qed
qed

lemma train_epoch_total:
  assumes L: "log_interval a \<noteq> 0" and nb: "nat (batch_size a) \<le> length samples"
    and bs: "0 < batch_size a"
  shows "\<exists>r. train_epoch a e samples losses = Inr r"
proof -
  define loader where "loader = drop_last_batches (nat (batch_size a)) samples"
  have "0 < length samples div nat (batch_size a)"
    using nb bs by (simp add: div_greater_zero_iff)
  then have len: "length loader \<noteq> 0"
    by (simp add: loader_def drop_last_batches_length)
  show ?thesis
  proof (cases "train_loop a e (length loader) losses (enumerate 0 loader) train_init")
    case (Inl err1)
    then show ?thesis using train_loop_error [OF Inl] L by simp
  next
    case (Inr st)
    obtain f where "f1_score (y_pred st) (y_true st) = Inr f"
      using f1_score_Inr [OF train_loop_lengths [OF Inr]] by blast
    then show ?thesis
      using Inr len by (simp add: train_epoch_def Let_def loader_def [symmetric])
  qed
qed

lemma grid_image_result:
  "grid_image b n sh = Inl err \<Longrightarrow> err = AssertionError \<and> length b < n"
  "n \<le> length b \<Longrightarrow> \<exists>fig. grid_image b n sh = Inr fig"
  "length b < n \<Longrightarrow> grid_image b n sh = Inl AssertionError"
  by (auto simp: grid_image_def Let_def split: if_splits)

lemma drop_last_batches_Cons:
  "0 < bs \<Longrightarrow> bs \<le> length xs \<Longrightarrow>
   \<exists>rest. drop_last_batches bs xs = take bs xs # rest"
  by (simp add: drop_last_batches.simps [of bs xs])

lemma validate_epoch_small:
  assumes "0 < valid_batch_size a" "valid_batch_size a < 16"
    and "nat (valid_batch_size a) \<le> length samples"
  shows "validate_epoch a samples losses draw = Inl AssertionError"
proof -
  obtain rest where r: "drop_last_batches (nat (valid_batch_size a)) samples =
      take (nat (valid_batch_size a)) samples # rest"
    using drop_last_batches_Cons [of "nat (valid_batch_size a)" samples] assms by auto
  have "length (take (nat (valid_batch_size a)) samples) < 16"
    using assms by simp
  then show ?thesis
    by (simp add: validate_epoch_cases r grid_image_result(3))
qed

lemma validate_epoch_error:
  assumes "validate_epoch a samples losses draw = Inl err"
  shows "err = AssertionError \<and> valid_batch_size a < 16"
proof (cases "drop_last_batches (nat (valid_batch_size a)) samples")
  case Nil
  then show ?thesis using assms by (simp add: validate_epoch_cases)
next
  case (Cons b rest)
  then have "b \<in> set (drop_last_batches (nat (valid_batch_size a)) samples)" by simp
  then have len: "length b = nat (valid_batch_size a)" by (rule drop_last_batches_full)
  define sh where "sh = (if dataset a \<noteq> ''MaskSplitByProfileDataset'' then Some draw else None)"
  have c: "validate_epoch a samples losses draw =
      (case grid_image b 16 sh of Inl err \<Rightarrow> Inl err
       | Inr fig \<Rightarrow> Inr (val_metrics a samples losses (Some fig)))"
    unfolding sh_def by (simp only: validate_epoch_cases Cons list.case)
  have "grid_image b 16 sh = Inl err"
    using assms c by (cases "grid_image b 16 sh") simp_all
  from grid_image_result(1) [OF this] show ?thesis using len by auto
qed

lemma slot_step_raise:
  assumes "slot_step ev a e i s = Raise err s'"
  shows "err = ZeroDivisionError \<or> (err = AssertionError \<and> valid_batch_size a < 16)"
proof (cases "train_epoch a e (train_samples ev e i) (train_losses ev e i)")
  case (Inl err1)
  then show ?thesis using assms train_epoch_error [OF Inl] by (simp add: slot_step_def Let_def)
next
  case (Inr tr)
  show ?thesis
  proof (cases "validate_epoch a (val_samples ev e i) (val_losses ev e i) (random_draws ev e i)")
    case (Inl err2)
    then show ?thesis using assms Inr validate_epoch_error [OF Inl]
      by (simp add: slot_step_def Let_def)
  next
    case (Inr vr)
    then show ?thesis using assms \<open>train_epoch a e (train_samples ev e i) (train_losses ev e i) = Inr tr\<close>
      by (simp add: slot_step_def Let_def split: if_splits)
  qed
qed

lemma slots_loop_raise:
  "slots_loop ev a e is s = Aborted err s' \<Longrightarrow>
   err = ZeroDivisionError \<or> (err = AssertionError \<and> valid_batch_size a < 16)"
proof (induction "is" arbitrary: s)
  case Nil
  then show ?case by simp
next
  case (Cons i rest)
  show ?case
  proof (cases "slot_step ev a e i s")
    case (Raise err1 s1)
    then show ?thesis using Cons.prems slot_step_raise [OF Raise] by simp
  next
    case (Break s1)
    then show ?thesis using Cons.prems by simp
  next
    case (Continue s1)
    then show ?thesis using Cons.prems Cons.IH [of s1] by simp
  qed
qed

lemma epochs_loop_raise:
  "epochs_loop ev a es s = Aborted err s' \<Longrightarrow>
   err = ZeroDivisionError \<or> (err = AssertionError \<and> valid_batch_size a < 16)"
proof (induction es arbitrary: s)
  case Nil
  then show ?case by simp
next
  case (Cons e rest)
  show ?case
  proof (cases "slots_loop ev a e [0..<5] s")
    case (Aborted err1 s1)
    then show ?thesis using Cons.prems slots_loop_raise [OF Aborted] by simp
  next
    case (Finished s1)
    then show ?thesis using Cons.prems Cons.IH [of s1] by simp
  qed
qed

lemma train_assertion_needs_small_batch:
  assumes "raised (train ev a) = Some AssertionError"
  shows "valid_batch_size a < 16"
proof -
  obtain s where s: "train ev a = Aborted AssertionError s"
    using assms by (cases "train ev a") auto
  then have "epochs_loop ev a [0..<nat (epochs a)] init_state = Aborted AssertionError s"
    by (auto simp: train_def run_epochs_def split: if_splits)
  from epochs_loop_raise [OF this] show ?thesis by simp
qed

lemma slot_step_first_validation:
  assumes vbs: "0 < valid_batch_size a" "valid_batch_size a < 16"
    and val: "nat (valid_batch_size a) \<le> length (val_samples ev e i)"
    and tr: "train_epoch a e (train_samples ev e i) (train_losses ev e i) = Inr r"
  shows "\<exists>s'. slot_step ev a e i s = Raise AssertionError s'
      \<and> events s' = events s @ [TrainCall e i, ValidateCall e i]"
  using validate_epoch_small [OF vbs val] tr by (simp add: slot_step_def Let_def)

lemma train_first_validation:
  assumes ep: "1 \<le> epochs a" and bs: "0 < batch_size a"
    and vbs: "0 < valid_batch_size a" "valid_batch_size a < 16"
    and L: "log_interval a \<noteq> 0"
    and tr: "nat (batch_size a) \<le> length (train_samples ev 0 0)"
    and val: "nat (valid_batch_size a) \<le> length (val_samples ev 0 0)"
  shows "raised (train ev a) = Some AssertionError
     \<and> events (final_state (train ev a)) = [TrainCall 0 0, ValidateCall 0 0]"
proof -
  obtain r where r: "train_epoch a 0 (train_samples ev 0 0) (train_losses ev 0 0) = Inr r"
    using train_epoch_total [OF L tr bs] by blast
  obtain s' where s': "slot_step ev a 0 0 init_state = Raise AssertionError s'"
      "events s' = events init_state @ [TrainCall 0 0, ValidateCall 0 0]"
    using slot_step_first_validation [OF vbs val r] by blast
  have es: "[0..<nat (epochs a)] = 0 # [1..<nat (epochs a)]"
    using ep by (simp add: upt_conv_Cons)
  have sl: "[0..<5] = 0 # [1..<5]" by (simp add: upt_conv_Cons)
  have "train ev a = Aborted AssertionError s'"
    using bs vbs s'(1) by (simp add: train_def run_epochs_def es sl del: upt_Suc)
  then show ?thesis using s'(2) by (simp add: init_state_def)
qed

lemma validate_epoch_Inr:
  "validate_epoch a samples losses draw = Inr v \<Longrightarrow>
   \<exists>fig. v = val_metrics a samples losses fig"
  by (auto simp: validate_epoch_cases split: list.splits sum.splits)

text \<open>
  C5. A loader with the drop-last policy yields as many batches as the batch size goes
  into the number of samples, and they hold the first batch size times number of
  batches samples: for 17 samples and batch size 5, three batches holding the first 15
  samples. The accuracy of a training epoch is the number of correct predictions among
  those samples divided by batch size times number of batches (15 in the example),
  and so is the accuracy of a validation epoch, with numpy's division.
\<close>

theorem drop_last_accuracy:
  "length (drop_last_batches bs xs) = length xs div bs
   \<and> concat (drop_last_batches bs xs) = take (bs * (length xs div bs)) xs
   \<and> (length xs = 17 \<longrightarrow>
        length (drop_last_batches 5 xs) = 3 \<and> concat (drop_last_batches 5 xs) = take 15 xs)
   \<and> (train_epoch a e samples losses = Inr r \<longrightarrow>
        train_acc r =
          real (batch_matches
                  (take (nat (batch_size a) * (length samples div nat (batch_size a))) samples))
          / real (nat (batch_size a) * (length samples div nat (batch_size a))))
   \<and> (validate_epoch a samples losses draw = Inr v \<longrightarrow>
        val_acc v =
          np_div
            (real (batch_matches
                     (take (nat (valid_batch_size a)
                              * (length samples div nat (valid_batch_size a))) samples)))
            (real (nat (valid_batch_size a) * (length samples div nat (valid_batch_size a)))))
   \<and> (length samples = 17 \<and> batch_size a = 5 \<and> train_epoch a e samples losses = Inr r \<longrightarrow>
        train_acc r = real (batch_matches (take 15 samples)) / 15)"
proof -
  have tr: "train_epoch a e samples losses = Inr r \<Longrightarrow>
        train_acc r =
          real (batch_matches
                  (take (nat (batch_size a) * (length samples div nat (batch_size a))) samples))
          / real (nat (batch_size a) * (length samples div nat (batch_size a)))"
    by (rule train_epoch_Inr(2))
  have va: "validate_epoch a samples losses draw = Inr v \<Longrightarrow>
        val_acc v =
          np_div
            (real (batch_matches
                     (take (nat (valid_batch_size a)
                              * (length samples div nat (valid_batch_size a))) samples)))
            (real (nat (valid_batch_size a) * (length samples div nat (valid_batch_size a))))"
    using validate_epoch_Inr [of a samples losses draw v]
    by (auto simp: val_metrics_def Let_def)
  have ex: "length samples = 17 \<Longrightarrow> batch_size a = 5 \<Longrightarrow> train_epoch a e samples losses = Inr r
      \<Longrightarrow> train_acc r = real (batch_matches (take 15 samples)) / 15"
    using tr by simp
  show ?thesis
    using tr va ex by (simp add: drop_last_batches_length drop_last_batches_concat)
qed

theorem drop_last_accuracy_witness:
  "length (demo_partition 17) = 17
   \<and> length (drop_last_batches 5 (demo_partition 17)) = 3
   \<and> concat (drop_last_batches 5 (demo_partition 17)) = take 15 (demo_partition 17)
   \<and> batch_size (demo_args\<lparr>batch_size := 5\<rparr>) = 5
   \<and> train_epoch (demo_args\<lparr>batch_size := 5\<rparr>) 0 (demo_partition 17) (\<lambda>j. 1) =
       Inr \<lparr>train_loss = 1, train_acc = 2 / 5, train_f1 = Fin (25 / 78),
            train_scalars =
              [AddScalar ''Train/loss'' (Fin 1) 0, AddScalar ''Train/accuracy'' (Fin (2 / 5)) 0,
               AddScalar ''Train/loss'' (Fin 1) 1, AddScalar ''Train/accuracy'' (Fin (2 / 5)) 1,
               AddScalar ''Train/loss'' (Fin 1) 2, AddScalar ''Train/accuracy'' (Fin (2 / 5)) 2]\<rparr>
   \<and> 2 / 5 = real (batch_matches (take 15 (demo_partition 17))) / 15
   \<and> validate_epoch demo_args (demo_partition 35) (\<lambda>j. real j) (\<lambda>k. 7 * k) =
       Inr \<lparr>val_loss = Fin (1 / 2), val_acc = Fin (3 / 8), val_f1 = Fin (8 / 27),
            val_figure = Some (take 16 (demo_partition 35))\<rparr>
   \<and> Fin (3 / 8) = np_div (real (batch_matches (take 32 (demo_partition 35)))) (real 32)"
proof -
  let ?a = "demo_args\<lparr>batch_size := 5\<rparr>"
  let ?r = "\<lparr>train_loss = 1, train_acc = 2 / 5, train_f1 = Fin (25 / 78),
            train_scalars =
              [AddScalar ''Train/loss'' (Fin 1) 0, AddScalar ''Train/accuracy'' (Fin (2 / 5)) 0,
               AddScalar ''Train/loss'' (Fin 1) 1, AddScalar ''Train/accuracy'' (Fin (2 / 5)) 1,
               AddScalar ''Train/loss'' (Fin 1) 2, AddScalar ''Train/accuracy'' (Fin (2 / 5)) 2]\<rparr>"
  let ?v = "\<lparr>val_loss = Fin (1 / 2), val_acc = Fin (3 / 8), val_f1 = Fin (8 / 27),
            val_figure = Some (take 16 (demo_partition 35))\<rparr>"
  have len: "length (demo_partition 17) = 17" by (simp add: demo_partition_def)
  have bs: "batch_size ?a = 5" by simp
  have t: "train_epoch ?a 0 (demo_partition 17) (\<lambda>j. 1) = Inr ?r" by code_simp
  have v: "validate_epoch demo_args (demo_partition 35) (\<lambda>j. real j) (\<lambda>k. 7 * k) = Inr ?v"
    by code_simp
  have len35: "length (demo_partition 35) = 35" by (simp add: demo_partition_def)
  have vbs: "nat (valid_batch_size demo_args) = 16" by (simp add: demo_args_def)
  note inst1 = drop_last_accuracy [of 5 "demo_partition 17" ?a 0 "demo_partition 17" "\<lambda>j. 1" ?r]
  note inst2 = drop_last_accuracy [of 5 "demo_partition 17" demo_args 0 "demo_partition 35"
      "\<lambda>j. real j" _ "\<lambda>k. 7 * k" ?v]
  have c1: "length (drop_last_batches 5 (demo_partition 17)) = 3
      \<and> concat (drop_last_batches 5 (demo_partition 17)) = take 15 (demo_partition 17)"
    using inst1 len by blast
  have c2: "train_acc ?r = real (batch_matches (take 15 (demo_partition 17))) / 15"
    using inst1 len bs t by blast
  have c3: "val_acc ?v = np_div (real (batch_matches (take (nat (valid_batch_size demo_args)
                              * (length (demo_partition 35) div nat (valid_batch_size demo_args)))
                        (demo_partition 35))))
            (real (nat (valid_batch_size demo_args)
               * (length (demo_partition 35) div nat (valid_batch_size demo_args))))"
    using inst2 v by blast
  have c3': "Fin (3 / 8) = np_div (real (batch_matches (take 32 (demo_partition 35)))) (real 32)"
    using c3 by (simp add: len35 vbs)
  show ?thesis using len c1 bs t c2 v c3' by simp
qed


section \<open>Interval logging, the figure of the first batch, and the F1 score\<close>

lemma train_epoch_log:
  assumes L: "0 < log_interval a" and r: "train_epoch a epoch samples losses = Inr r"
  shows "train_scalars r =
     concat (map (window_scalars a epoch (length (drop_last_batches (nat (batch_size a)) samples))
                    losses (drop_last_batches (nat (batch_size a)) samples))
               [0..<length (drop_last_batches (nat (batch_size a)) samples)
                      div nat (log_interval a)])"
proof -
  define loader where "loader = drop_last_batches (nat (batch_size a)) samples"
  have loop: "train_loop a epoch (length loader) losses (enumerate 0 loader) train_init =
      Inr (train_prefix_state a epoch (length loader) losses loader (length loader))"
    using train_loop_prefix [OF L, of "length loader" loader epoch "length loader" losses]
    by simp
  have "train_scalars r =
      train_log (train_prefix_state a epoch (length loader) losses loader (length loader))"
    using r loop
    by (auto simp: train_epoch_def Let_def loader_def [symmetric] split: sum.splits if_splits)
  then show ?thesis
    by (simp add: train_prefix_state_def Let_def loader_def [symmetric])
qed

lemma scalar_steps_windows:
  "scalar_steps ''Train/loss'' (concat (map (window_scalars a epoch nb losses loader) ws)) =
     map (\<lambda>w. epoch * nb + (w * nat (log_interval a) + nat (log_interval a) - 1)) ws"
  by (induction ws) (simp_all add: scalar_steps_def window_scalars_def Let_def)

lemma window_step_bound:
  fixes N w nb :: nat
  assumes N: "0 < N" and w: "w < nb div N"
  shows "w * N + N - 1 < nb"
proof -
  have "Suc w * N \<le> nb div N * N" using w by (simp add: Suc_leI mult_le_mono1 del: mult_Suc)
  also have "\<dots> \<le> nb" by simp
  finally have "w * N + N \<le> nb" by simp
  then show ?thesis using N by simp
qed

lemma window_steps_sorted:
  fixes N c :: nat
  assumes N: "0 < N"
  shows "sorted_wrt (<) (map (\<lambda>w. c + (w * N + N - 1)) [0..<m])"
proof -
  have "\<And>x y. x < y \<Longrightarrow> c + (x * N + N - 1) < c + (y * N + N - 1)"
  proof -
    fix x y :: nat assume "x < y"
    then have "x * N < y * N" using N by simp
    then show "c + (x * N + N - 1) < c + (y * N + N - 1)" using N by arith
  qed
  then show ?thesis
    by (simp add: sorted_wrt_map sorted_wrt_mono_rel [OF _ sorted_wrt_upt])
qed

lemma train_batch_reset:
  assumes "(int idx + 1) mod log_interval a = 0"
    and "train_batch a epoch nb losses (idx, b) st = Inr st'"
  shows "temp_loss_value st' = 0 \<and> temp_matches st' = 0
     \<and> train_log st' = train_log st @
          [AddScalar ''Train/loss''
             (Fin ((temp_loss_value st + losses idx) / real_of_int (log_interval a)))
             (epoch * nb + idx),
           AddScalar ''Train/accuracy''
             (Fin (real (temp_matches st + batch_matches b) / real_of_int (batch_size a)
                     / real_of_int (log_interval a)))
             (epoch * nb + idx)]"
  using assms by (auto simp: train_batch_def Let_def split: if_splits)

text \<open>
  C6. With a positive logging interval \<open>N\<close>, the scalars that the training pass of
  an epoch sends to the logging sink are, window after window of \<open>N\<close> batches, the
  window's mean loss (its summed loss divided by \<open>N\<close>) and mean accuracy (its
  summed correct count divided by the batch size and by \<open>N\<close>), both tagged with the
  step epoch index times batches per epoch plus index of the window's last batch. The
  steps increase strictly within the epoch and lie between the epoch's first and last
  step, so they increase from epoch to epoch as well. The batch that completes a window
  logs the window sums and leaves them at zero.
\<close>

theorem window_logging:
  "0 < log_interval a \<Longrightarrow> train_epoch a epoch samples losses = Inr r \<Longrightarrow>
   (let loader = drop_last_batches (nat (batch_size a)) samples;
        n_batches = length loader;
        N = nat (log_interval a)
    in train_scalars r =
         concat (map (window_scalars a epoch n_batches losses loader) [0..<n_batches div N])
       \<and> scalar_steps ''Train/loss'' (train_scalars r) =
           map (\<lambda>w. epoch * n_batches + (w * N + N - 1)) [0..<n_batches div N]
       \<and> sorted_wrt (<) (scalar_steps ''Train/loss'' (train_scalars r))
       \<and> (\<forall>step\<in>set (scalar_steps ''Train/loss'' (train_scalars r)).
             epoch * n_batches \<le> step \<and> step < Suc epoch * n_batches))
   \<and> ((int idx + 1) mod log_interval a = 0
        \<and> train_batch a epoch nb losses (idx, b) st = Inr st' \<longrightarrow>
      temp_loss_value st' = 0 \<and> temp_matches st' = 0
      \<and> train_log st' = train_log st @
          [AddScalar ''Train/loss''
             (Fin ((temp_loss_value st + losses idx) / real_of_int (log_interval a)))
             (epoch * nb + idx),
           AddScalar ''Train/accuracy''
             (Fin (real (temp_matches st + batch_matches b) / real_of_int (batch_size a)
                     / real_of_int (log_interval a)))
             (epoch * nb + idx)])"
proof -
  assume L: "0 < log_interval a" and r: "train_epoch a epoch samples losses = Inr r"
  define loader where "loader = drop_last_batches (nat (batch_size a)) samples"
  define n_batches where "n_batches = length loader"
  define N where "N = nat (log_interval a)"
  have N: "0 < N" using L by (simp add: N_def)
  have lg: "train_scalars r =
      concat (map (window_scalars a epoch n_batches losses loader) [0..<n_batches div N])"
    using train_epoch_log [OF L r] by (simp add: loader_def n_batches_def N_def)
  have st: "scalar_steps ''Train/loss'' (train_scalars r) =
      map (\<lambda>w. epoch * n_batches + (w * N + N - 1)) [0..<n_batches div N]"
    by (simp only: lg scalar_steps_windows N_def)
  have so: "sorted_wrt (<) (scalar_steps ''Train/loss'' (train_scalars r))"
    by (simp only: st window_steps_sorted [OF N])
  have bd: "\<forall>step\<in>set (scalar_steps ''Train/loss'' (train_scalars r)).
      epoch * n_batches \<le> step \<and> step < Suc epoch * n_batches"
  proof
    fix step assume "step \<in> set (scalar_steps ''Train/loss'' (train_scalars r))"
    then obtain w where w: "w < n_batches div N" "step = epoch * n_batches + (w * N + N - 1)"
      by (auto simp: st)
    from window_step_bound [OF N w(1)] show "epoch * n_batches \<le> step \<and> step < Suc epoch * n_batches"
      using w(2) by simp
  qed
  have first: "(let loader = drop_last_batches (nat (batch_size a)) samples;
        n_batches = length loader;
        N = nat (log_interval a)
    in train_scalars r =
         concat (map (window_scalars a epoch n_batches losses loader) [0..<n_batches div N])
       \<and> scalar_steps ''Train/loss'' (train_scalars r) =
           map (\<lambda>w. epoch * n_batches + (w * N + N - 1)) [0..<n_batches div N]
       \<and> sorted_wrt (<) (scalar_steps ''Train/loss'' (train_scalars r))
       \<and> (\<forall>step\<in>set (scalar_steps ''Train/loss'' (train_scalars r)).
             epoch * n_batches \<le> step \<and> step < Suc epoch * n_batches))"
    unfolding Let_def loader_def [symmetric] n_batches_def [symmetric] N_def [symmetric]
    using lg st so bd by blast
  have second: "(int idx + 1) mod log_interval a = 0
        \<and> train_batch a epoch nb losses (idx, b) st = Inr st' \<longrightarrow>
      temp_loss_value st' = 0 \<and> temp_matches st' = 0
      \<and> train_log st' = train_log st @
          [AddScalar ''Train/loss''
             (Fin ((temp_loss_value st + losses idx) / real_of_int (log_interval a)))
             (epoch * nb + idx),
           AddScalar ''Train/accuracy''
             (Fin (real (temp_matches st + batch_matches b) / real_of_int (batch_size a)
                     / real_of_int (log_interval a)))
             (epoch * nb + idx)]"
  proof (intro impI, elim conjE)
    assume 1: "(int idx + 1) mod log_interval a = 0"
      and 2: "train_batch a epoch nb losses (idx, b) st = Inr st'"
    show "temp_loss_value st' = 0 \<and> temp_matches st' = 0
      \<and> train_log st' = train_log st @
          [AddScalar ''Train/loss''
             (Fin ((temp_loss_value st + losses idx) / real_of_int (log_interval a)))
             (epoch * nb + idx),
           AddScalar ''Train/accuracy''
             (Fin (real (temp_matches st + batch_matches b) / real_of_int (batch_size a)
                     / real_of_int (log_interval a)))
             (epoch * nb + idx)]"
      by (rule train_batch_reset [OF 1 2])
  qed
  show ?thesis by (rule conjI [OF first second])
qed

theorem window_logging_witness:
  "0 < log_interval (demo_args\<lparr>log_interval := 2\<rparr>)
   \<and> train_epoch (demo_args\<lparr>log_interval := 2\<rparr>) 3 (demo_partition 9) (\<lambda>j. real j) =
       Inr \<lparr>train_loss = 3 / 2, train_acc = 1 / 2, train_f1 = Fin (8 / 21),
            train_scalars =
              [AddScalar ''Train/loss'' (Fin (1 / 2)) 13,
               AddScalar ''Train/accuracy'' (Fin (1 / 2)) 13,
               AddScalar ''Train/loss'' (Fin (5 / 2)) 15,
               AddScalar ''Train/accuracy'' (Fin (1 / 2)) 15]\<rparr>
   \<and> [AddScalar ''Train/loss'' (Fin (1 / 2)) 13,
       AddScalar ''Train/accuracy'' (Fin (1 / 2)) 13,
       AddScalar ''Train/loss'' (Fin (5 / 2)) 15,
       AddScalar ''Train/accuracy'' (Fin (1 / 2)) 15] =
      concat (map (window_scalars (demo_args\<lparr>log_interval := 2\<rparr>) 3 4 (\<lambda>j. real j)
                     (drop_last_batches 2 (demo_partition 9))) [0..<2])
   \<and> (int 1 + 1) mod log_interval (demo_args\<lparr>log_interval := 2\<rparr>) = 0
   \<and> train_batch (demo_args\<lparr>log_interval := 2\<rparr>) 3 4 (\<lambda>j. real j) (1, [(0, 0)]) train_init =
       Inr \<lparr>y_true = [0], y_pred = [0], loss_value = 1, matches = 1,
            temp_loss_value = 0, temp_matches = 0,
            train_log = [AddScalar ''Train/loss'' (Fin (1 / 2)) 13,
                         AddScalar ''Train/accuracy'' (Fin (1 / 4)) 13]\<rparr>"
proof -
  let ?a = "demo_args\<lparr>log_interval := 2\<rparr>"
  let ?r = "\<lparr>train_loss = 3 / 2, train_acc = 1 / 2, train_f1 = Fin (8 / 21),
            train_scalars =
              [AddScalar ''Train/loss'' (Fin (1 / 2)) 13,
               AddScalar ''Train/accuracy'' (Fin (1 / 2)) 13,
               AddScalar ''Train/loss'' (Fin (5 / 2)) 15,
               AddScalar ''Train/accuracy'' (Fin (1 / 2)) 15]\<rparr>"
  let ?st' = "\<lparr>y_true = [0], y_pred = [0], loss_value = 1, matches = 1,
            temp_loss_value = 0, temp_matches = 0,
            train_log = [AddScalar ''Train/loss'' (Fin (1 / 2)) 13,
                         AddScalar ''Train/accuracy'' (Fin (1 / 4)) 13]\<rparr>"
  have L: "0 < log_interval ?a" by simp
  have t: "train_epoch ?a 3 (demo_partition 9) (\<lambda>j. real j) = Inr ?r" by code_simp
  have m: "(int 1 + 1) mod log_interval ?a = 0" by simp
  have b: "train_batch ?a 3 4 (\<lambda>j. real j) (1, [(0, 0)]) train_init = Inr ?st'" by code_simp
  have bs: "nat (batch_size demo_args) = 2" by (simp add: demo_args_def)
  have len: "length (drop_last_batches 2 (demo_partition 9)) = 4"
    by code_simp
  note inst = window_logging [where a = ?a and epoch = 3 and samples = "demo_partition 9"
      and losses = "\<lambda>j. real j" and r = ?r, OF L t]
  have c: "train_scalars ?r =
      concat (map (window_scalars ?a 3 4 (\<lambda>j. real j) (drop_last_batches 2 (demo_partition 9)))
                [0..<2])"
    using inst [THEN conjunct1] by (simp add: Let_def bs len)
  then have c': "[AddScalar ''Train/loss'' (Fin (1 / 2)) 13,
       AddScalar ''Train/accuracy'' (Fin (1 / 2)) 13,
       AddScalar ''Train/loss'' (Fin (5 / 2)) 15,
       AddScalar ''Train/accuracy'' (Fin (1 / 2)) 15] =
      concat (map (window_scalars ?a 3 4 (\<lambda>j. real j) (drop_last_batches 2 (demo_partition 9)))
                [0..<2])"
    by simp
  show ?thesis by (intro conjI L t c' m b)
qed

text \<open>
  C7, as the code has it. The validation metrics are a function of the validation
  batches alone, whatever figure is drawn; they are returned when the figure of the
  first batch is produced (or there is no batch). When \<^verbatim>\<open>grid_image\<close> raises, the
  validation epoch ends with that exception and returns no metrics.
\<close>

theorem validation_and_figure:
  "validate_epoch a samples losses draw =
     (case drop_last_batches (nat (valid_batch_size a)) samples of
        [] \<Rightarrow> Inr (val_metrics a samples losses None)
      | b # rest \<Rightarrow>
          (case grid_image b 16
                  (if dataset a \<noteq> ''MaskSplitByProfileDataset'' then Some draw else None) of
             Inl err \<Rightarrow> Inl err
           | Inr fig \<Rightarrow> Inr (val_metrics a samples losses (Some fig))))"
  by (rule validate_epoch_cases)

theorem validation_and_figure_counterexample:
  "grid_image (take 4 (demo_partition 35)) 16 None = Inl AssertionError
   \<and> validate_epoch (demo_args\<lparr>valid_batch_size := 4\<rparr>) (demo_partition 35)
         (\<lambda>j. real j) (\<lambda>k. 7 * k) = Inl AssertionError"
  by code_simp

text \<open>
  C10. The macro-averaged F1 does not change when its two label lists are exchanged
  (lists of different lengths are refused either way). The loops call it with the
  predictions first; the F1 that a training or a validation epoch reports is the
  macro F1 of the true labels against the predicted labels of the samples in full
  batches.
\<close>

theorem f1_argument_order:
  "f1_score preds labels = f1_score labels preds
   \<and> (train_epoch a e samples losses = Inr r \<longrightarrow>
        Inr (train_f1 r) =
          f1_score
            (map fst (take (nat (batch_size a) * (length samples div nat (batch_size a))) samples))
            (map snd (take (nat (batch_size a) * (length samples div nat (batch_size a))) samples)))
   \<and> (validate_epoch a samples losses draw = Inr v \<longrightarrow>
        Inr (val_f1 v) =
          f1_score
            (map fst (take (nat (valid_batch_size a)
                             * (length samples div nat (valid_batch_size a))) samples))
            (map snd (take (nat (valid_batch_size a)
                             * (length samples div nat (valid_batch_size a))) samples)))"
proof -
  have tr: "train_epoch a e samples losses = Inr r \<Longrightarrow>
        Inr (train_f1 r) =
          f1_score
            (map fst (take (nat (batch_size a) * (length samples div nat (batch_size a))) samples))
            (map snd (take (nat (batch_size a) * (length samples div nat (batch_size a))) samples))"
    using train_epoch_Inr(4) [of a e samples losses r]
    by (simp add: f1_score_swap [of "map snd (take (nat (batch_size a) * (length samples div nat (batch_size a))) samples)"])
  have va: "validate_epoch a samples losses draw = Inr v \<Longrightarrow>
        Inr (val_f1 v) =
          f1_score
            (map fst (take (nat (valid_batch_size a)
                             * (length samples div nat (valid_batch_size a))) samples))
            (map snd (take (nat (valid_batch_size a)
                             * (length samples div nat (valid_batch_size a))) samples))"
  proof -
    assume "validate_epoch a samples losses draw = Inr v"
    then obtain fig where v: "v = val_metrics a samples losses fig"
      using validate_epoch_Inr by blast
    show ?thesis
      using f1_score_Inr_case [of
          "map fst (take (nat (valid_batch_size a) * (length samples div nat (valid_batch_size a))) samples)"
          "map snd (take (nat (valid_batch_size a) * (length samples div nat (valid_batch_size a))) samples)"]
      by (simp add: v val_metrics_def Let_def)
  qed
  show ?thesis using tr va f1_score_swap [of preds labels] by blast
qed

text \<open>
  C9, as the code has it. \<^verbatim>\<open>grid_image\<close> fails its assertion exactly when the batch
  has fewer than \<open>n\<close> samples, and every batch of a drop-last loader has exactly
  batch size samples. A run with at least one epoch, positive batch sizes, a
  validation batch size below 16, a log interval other than 0, and first-slot training
  and validation partitions that each fill at least one batch aborts with the assertion
  in the first validation pass of slot 0, after exactly one training and one validation
  call. With a validation batch size of 16 or more no run aborts with the assertion.
\<close>

theorem grid_assertion:
  "(grid_image b n sh = Inl AssertionError) = (length b < n)
   \<and> (\<forall>b\<in>set (drop_last_batches bs xs). length b = bs)
   \<and> (1 \<le> epochs a \<and> 0 < batch_size a \<and> 0 < valid_batch_size a \<and> valid_batch_size a < 16
        \<and> log_interval a \<noteq> 0
        \<and> nat (batch_size a) \<le> length (train_samples ev 0 0)
        \<and> nat (valid_batch_size a) \<le> length (val_samples ev 0 0) \<longrightarrow>
      raised (train ev a) = Some AssertionError
      \<and> events (final_state (train ev a)) = [TrainCall 0 0, ValidateCall 0 0])
   \<and> (16 \<le> valid_batch_size a \<longrightarrow> raised (train ev a) \<noteq> Some AssertionError)"
proof -
  have g: "(grid_image b n sh = Inl AssertionError) = (length b < n)"
    by (auto simp: grid_image_def Let_def)
  have d: "\<forall>b\<in>set (drop_last_batches bs xs). length b = bs"
    using drop_last_batches_full by blast
  have big: "16 \<le> valid_batch_size a \<longrightarrow> raised (train ev a) \<noteq> Some AssertionError"
    using train_assertion_needs_small_batch [of ev a] by auto
  show ?thesis using g d big train_first_validation [of a ev] by blast
qed

theorem f1_argument_order_witness:
  "train_epoch (demo_args\<lparr>batch_size := 5\<rparr>) 0 (demo_partition 17) (\<lambda>j. 1) =
       Inr \<lparr>train_loss = 1, train_acc = 2 / 5, train_f1 = Fin (25 / 78),
            train_scalars =
              [AddScalar ''Train/loss'' (Fin 1) 0, AddScalar ''Train/accuracy'' (Fin (2 / 5)) 0,
               AddScalar ''Train/loss'' (Fin 1) 1, AddScalar ''Train/accuracy'' (Fin (2 / 5)) 1,
               AddScalar ''Train/loss'' (Fin 1) 2, AddScalar ''Train/accuracy'' (Fin (2 / 5)) 2]\<rparr>
   \<and> Inr (Fin (25 / 78)) =
       f1_score (map fst (take 15 (demo_partition 17))) (map snd (take 15 (demo_partition 17)))
   \<and> validate_epoch demo_args (demo_partition 35) (\<lambda>j. real j) (\<lambda>k. 7 * k) =
       Inr \<lparr>val_loss = Fin (1 / 2), val_acc = Fin (3 / 8), val_f1 = Fin (8 / 27),
            val_figure = Some (take 16 (demo_partition 35))\<rparr>
   \<and> Inr (Fin (8 / 27)) =
       f1_score (map fst (take 32 (demo_partition 35))) (map snd (take 32 (demo_partition 35)))
   \<and> f1_score [0, 0, 1] [0, 1, 1] = f1_score [0, 1, 1] [0, 0, 1]"
proof -
  let ?a = "demo_args\<lparr>batch_size := 5\<rparr>"
  let ?r = "\<lparr>train_loss = 1, train_acc = 2 / 5, train_f1 = Fin (25 / 78),
            train_scalars =
              [AddScalar ''Train/loss'' (Fin 1) 0, AddScalar ''Train/accuracy'' (Fin (2 / 5)) 0,
               AddScalar ''Train/loss'' (Fin 1) 1, AddScalar ''Train/accuracy'' (Fin (2 / 5)) 1,
               AddScalar ''Train/loss'' (Fin 1) 2, AddScalar ''Train/accuracy'' (Fin (2 / 5)) 2]\<rparr>"
  let ?v = "\<lparr>val_loss = Fin (1 / 2), val_acc = Fin (3 / 8), val_f1 = Fin (8 / 27),
            val_figure = Some (take 16 (demo_partition 35))\<rparr>"
  have t: "train_epoch ?a 0 (demo_partition 17) (\<lambda>j. 1) = Inr ?r" by code_simp
  have v: "validate_epoch demo_args (demo_partition 35) (\<lambda>j. real j) (\<lambda>k. 7 * k) = Inr ?v"
    by code_simp
  have n17: "nat (batch_size ?a) * (length (demo_partition 17) div nat (batch_size ?a)) = 15"
    by (simp add: demo_partition_def)
  have n35: "nat (valid_batch_size demo_args)
      * (length (demo_partition 35) div nat (valid_batch_size demo_args)) = 32"
    by (simp add: demo_partition_def demo_args_def)
  note inst1 = f1_argument_order [where a = ?a and e = 0 and samples = "demo_partition 17"
      and losses = "\<lambda>j. 1" and r = ?r and preds = "[0, 0, 1]" and labels = "[0, 1, 1]"]
  note inst2 = f1_argument_order [where a = demo_args and samples = "demo_partition 35"
      and losses = "\<lambda>j. real j" and draw = "\<lambda>k. 7 * k" and v = ?v]
  have c0: "f1_score [0, 0, 1] [0, 1, 1] = f1_score [0, 1, 1] [0, 0, 1]"
    using inst1 by blast
  have c1: "Inr (train_f1 ?r) =
       f1_score (map fst (take 15 (demo_partition 17))) (map snd (take 15 (demo_partition 17)))"
    using inst1 t unfolding n17 by blast
  have c2: "Inr (val_f1 ?v) =
       f1_score (map fst (take 32 (demo_partition 35))) (map snd (take 32 (demo_partition 35)))"
    using inst2 v unfolding n35 by blast
  have c1': "Inr (Fin (25 / 78)) =
       f1_score (map fst (take 15 (demo_partition 17))) (map snd (take 15 (demo_partition 17)))"
    using c1 by simp
  have c2': "Inr (Fin (8 / 27)) =
       f1_score (map fst (take 32 (demo_partition 35))) (map snd (take 32 (demo_partition 35)))"
    using c2 by simp
  show ?thesis by (intro conjI t c1' v c2' c0)
qed

theorem grid_assertion_witness:
  "1 \<le> epochs (demo_args\<lparr>valid_batch_size := 4\<rparr>)
   \<and> 0 < batch_size (demo_args\<lparr>valid_batch_size := 4\<rparr>)
   \<and> 0 < valid_batch_size (demo_args\<lparr>valid_batch_size := 4\<rparr>)
   \<and> valid_batch_size (demo_args\<lparr>valid_batch_size := 4\<rparr>) < 16
   \<and> log_interval (demo_args\<lparr>valid_batch_size := 4\<rparr>) \<noteq> 0
   \<and> nat (batch_size (demo_args\<lparr>valid_batch_size := 4\<rparr>))
       \<le> length (train_samples (demo_env (\<lambda>e i. False)) 0 0)
   \<and> nat (valid_batch_size (demo_args\<lparr>valid_batch_size := 4\<rparr>))
       \<le> length (val_samples (demo_env (\<lambda>e i. False)) 0 0)
   \<and> raised (train (demo_env (\<lambda>e i. False)) (demo_args\<lparr>valid_batch_size := 4\<rparr>)) =
       Some AssertionError
   \<and> events (final_state (train (demo_env (\<lambda>e i. False)) (demo_args\<lparr>valid_batch_size := 4\<rparr>)))
       = [TrainCall 0 0, ValidateCall 0 0]
   \<and> 16 \<le> valid_batch_size demo_args
   \<and> raised (train (demo_env (\<lambda>e i. False)) demo_args) \<noteq> Some AssertionError
   \<and> raised (train (demo_env (\<lambda>e i. False)) demo_args) = None
   \<and> length (take 4 (demo_partition 35)) < 16
   \<and> grid_image (take 4 (demo_partition 35)) 16 None = Inl AssertionError
   \<and> [(0, 0), (1, 0)] \<in> set (drop_last_batches 2 [(0::nat, 0::nat), (1, 0), (1, 1)])
   \<and> length [(0::nat, 0::nat), (1, 0)] = 2"
proof -
  let ?a = "demo_args\<lparr>valid_batch_size := 4\<rparr>"
  let ?ev = "demo_env (\<lambda>e i. False)"
  have h: "1 \<le> epochs ?a" "0 < batch_size ?a" "0 < valid_batch_size ?a"
    "valid_batch_size ?a < 16" "log_interval ?a \<noteq> 0"
    "nat (batch_size ?a) \<le> length (train_samples ?ev 0 0)"
    "nat (valid_batch_size ?a) \<le> length (val_samples ?ev 0 0)"
    by (simp_all add: demo_args_def demo_env_def)
  have big: "16 \<le> valid_batch_size demo_args" by (simp add: demo_args_def)
  have none: "raised (train ?ev demo_args) = None" by code_simp
  have short: "length (take 4 (demo_partition 35)) < 16" by (simp add: demo_partition_def)
  have dl: "drop_last_batches 2 [(0::nat, 0::nat), (1, 0), (1, 1)] = [[(0, 0), (1, 0)]]"
    by code_simp
  have mem: "[(0, 0), (1, 0)] \<in> set (drop_last_batches 2 [(0::nat, 0::nat), (1, 0), (1, 1)])"
    by (simp only: dl) simp
  note inst1 = grid_assertion [where a = ?a and ev = ?ev and b = "take 4 (demo_partition 35)"
      and n = 16 and sh = None and bs = 2 and xs = "[(0, 0), (1, 0), (1, 1)]"]
  note inst2 = grid_assertion [where a = demo_args and ev = ?ev]
  have c1: "raised (train ?ev ?a) = Some AssertionError
      \<and> events (final_state (train ?ev ?a)) = [TrainCall 0 0, ValidateCall 0 0]"
    using inst1 h by blast
  have c2: "raised (train ?ev demo_args) \<noteq> Some AssertionError"
    using inst2 big by blast
  have c3: "grid_image (take 4 (demo_partition 35)) 16 None = Inl AssertionError"
    using inst1 short by blast
  have c4: "length [(0::nat, 0::nat), (1, 0)] = 2"
    using inst1 mem by blast
  show ?thesis
    by (intro conjI h big none short mem c1 [THEN conjunct1] c1 [THEN conjunct2] c2 c3 c4)
qed

theorem grid_assertion_counterexample:
  "valid_batch_size (demo_args\<lparr>valid_batch_size := 5\<rparr>) < 16
   \<and> drop_last_batches (nat (valid_batch_size (demo_args\<lparr>valid_batch_size := 5\<rparr>)))
        (demo_partition 3) = []
   \<and> validate_epoch (demo_args\<lparr>valid_batch_size := 5\<rparr>) (demo_partition 3)
        (\<lambda>j. 1) (\<lambda>k. k) =
       Inr \<lparr>val_loss = NaN, val_acc = NaN, val_f1 = NaN, val_figure = None\<rparr>
   \<and> raised (train ((demo_env (\<lambda>e i. False))\<lparr>val_samples := \<lambda>e i. demo_partition 3\<rparr>)
                (demo_args\<lparr>valid_batch_size := 5\<rparr>)) \<noteq> Some AssertionError"
  by code_simp


section \<open>The run directory\<close>

lemma increment_path_unchanged:
  "path \<notin> set fs \<or> exist_ok \<Longrightarrow> increment_path fs path exist_ok = path"
  by (auto simp: increment_path_def)

lemma increment_path_plain:
  "increment_path [''runs'', ''runs/exp''] ''runs/exp'' False = ''runs/exp2''"
  "increment_path [''runs'', ''runs/exp'', ''runs/exp2'', ''runs/exp10''] ''runs/exp'' False =
     ''runs/exp11''"
  by code_simp+

text \<open>
  C8 on the code. The regular expression is searched in the whole path, not in its
  final component: below a directory whose name is the stem followed by a number, here
  \<^verbatim>\<open>runs/exp7/exp\<close>, the first match of every entry is that directory. With only the
  base directory present the returned suffix is 8, not 2; and once \<^verbatim>\<open>runs/exp7/exp8\<close>
  exists the function returns that very path again, a suffix that is not greater than
  the existing one.
\<close>

theorem increment_path_parent_match:
  "increment_path [''runs'', ''runs/exp7'', ''runs/exp7/exp''] ''runs/exp7/exp'' False =
     ''runs/exp7/exp8''
   \<and> increment_path [''runs'', ''runs/exp7'', ''runs/exp7/exp'', ''runs/exp7/exp8'']
        ''runs/exp7/exp'' False = ''runs/exp7/exp8''
   \<and> re_search (path_stem ''runs/exp7/exp'') ''runs/exp7/exp8'' = Some 7"
  by code_simp

end
